theory Spec2Isabelle
  imports Main "HOL-Library.AList"
begin

section \<open>JavaScript values\<close>

text \<open>
  The service of \<^verbatim>\<open>lib/service/couchbase.service.js\<close> handles JSON-like values: the
  documents of the store, the payloads of the callers and the filter objects of
  \<^verbatim>\<open>find\<close>. A plain object is the list of its own properties in enumeration order.
  \<open>JWrap b fs\<close> is an object that is not a plain one (an array, or the wrapper object
  that \<^verbatim>\<open>Object.assign\<close> makes of a primitive target) together with the named
  properties \<open>fs\<close> it has received.

  Numbers are integers, with exact arithmetic: the rounding of doubles is not modelled.
  Strings are ASCII. Inherited and non-enumerable properties (\<^verbatim>\<open>length\<close>,
  \<^verbatim>\<open>toString\<close>, array indices as names) are not modelled: field names are taken to
  avoid them.
\<close>

datatype jsval =
    JUndefined
  | JNull
  | JBool bool
  | JNum int
  | JStr string
  | JArr "jsval list"
  | JObj "(string \<times> jsval) list"
  | JWrap jsval "(string \<times> jsval) list"

type_synonym jsobj = "(string \<times> jsval) list"

text \<open>\<^verbatim>\<open>v == null\<close>: true of \<^verbatim>\<open>null\<close> and \<^verbatim>\<open>undefined\<close> only.\<close>

fun nullish :: "jsval \<Rightarrow> bool" where
  "nullish JUndefined = True"
| "nullish JNull = True"
| "nullish _ = False"

text \<open>The truth value of \<^verbatim>\<open>if (v)\<close>, \<^verbatim>\<open>!v\<close> and \<^verbatim>\<open>v || w\<close>.\<close>

fun truthy :: "jsval \<Rightarrow> bool" where
  "truthy JUndefined = False"
| "truthy JNull = False"
| "truthy (JBool b) = b"
| "truthy (JNum n) = (n \<noteq> 0)"
| "truthy (JStr s) = (s \<noteq> [])"
| "truthy (JArr _) = True"
| "truthy (JObj _) = True"
| "truthy (JWrap _ _) = True"

text \<open>The own named properties that \<^verbatim>\<open>for (key in a)\<close> with \<^verbatim>\<open>hasOwnProperty\<close> visits.\<close>

fun own_props :: "jsval \<Rightarrow> jsobj" where
  "own_props (JObj fs) = fs"
| "own_props (JWrap _ fs) = fs"
| "own_props _ = []"

text \<open>\<^verbatim>\<open>v.k\<close> on a value that is not \<^verbatim>\<open>null\<close> or \<^verbatim>\<open>undefined\<close> (there the access throws, and
  the callers below check first).\<close>

definition get_prop :: "jsval \<Rightarrow> string \<Rightarrow> jsval" where
  "get_prop v k = (case map_of (own_props v) k of Some x \<Rightarrow> x | None \<Rightarrow> JUndefined)"

text \<open>\<^verbatim>\<open>q.k\<close> on a plain object given by its fields.\<close>

definition field :: "jsobj \<Rightarrow> string \<Rightarrow> jsval" where
  "field fs k = (case map_of fs k of Some x \<Rightarrow> x | None \<Rightarrow> JUndefined)"

section \<open>Errors and promises\<close>

text \<open>
  An error of the store client carries a numeric \<^verbatim>\<open>code\<close>; \<^verbatim>\<open>keyNotFound\<close> is the constant
  \<^verbatim>\<open>require('couchbase').errors.keyNotFound\<close> of the client library.
\<close>

datatype store_error = StoreErr (code: nat) (message: string)

definition keyNotFound :: nat where
  "keyNotFound = 13"

datatype error =
    BadRequest string
  | NotFound string
  | TypeError string
  | JsError string
  | StoreError store_error

text \<open>
  The state a promise ends in. \<open>Pending\<close> is the promise that is never settled: neither
  \<^verbatim>\<open>resolve\<close> nor \<^verbatim>\<open>reject\<close> is ever called on it.
\<close>

datatype 'a outcome = Resolved 'a | Rejected error | Pending

section \<open>The store client\<close>

text \<open>
  The bucket connection is an external collaborator. Each of its methods is a function of
  the store's state \<open>'s\<close>. \<^verbatim>\<open>get\<close>, \<^verbatim>\<open>insert\<close>, \<^verbatim>\<open>replace\<close> and \<^verbatim>\<open>query\<close> are called with a
  callback, which the client calls once, with the arguments given here:
  \<^verbatim>\<open>(err, element)\<close>, \<^verbatim>\<open>(err, result)\<close> and \<^verbatim>\<open>(err, results, queryData)\<close>. The service calls
  \<^verbatim>\<open>remove\<close> with the key alone and takes what the call returns or throws.
\<close>

datatype native_consistency = N_NOT_BOUNDED | N_REQUEST_PLUS | N_STATEMENT_PLUS

record n1ql =
  statement :: string
  consistency :: "native_consistency option"
  readonly :: bool

record 's client =
  bucket_get :: "string \<Rightarrow> 's \<Rightarrow> (store_error option \<times> jsval) \<times> 's"
  bucket_insert :: "string \<Rightarrow> jsval \<Rightarrow> 's \<Rightarrow> store_error option \<times> 's"
  bucket_replace :: "string \<Rightarrow> jsval \<Rightarrow> 's \<Rightarrow> store_error option \<times> 's"
  bucket_remove :: "string \<Rightarrow> 's \<Rightarrow> (error + jsval) \<times> 's"
  bucket_query :: "n1ql \<Rightarrow> jsval list \<Rightarrow> 's \<Rightarrow> (store_error option \<times> jsval \<times> jsval) \<times> 's"

text \<open>The calls the service makes on the client, in order.\<close>

datatype call =
    CGet string
  | CInsert string jsval
  | CReplace string jsval
  | CRemove string
  | CQuery n1ql "jsval list"

text \<open>
  What changes while an operation runs: the store, the calls made so far, and how many
  identifiers \<^verbatim>\<open>uuid()\<close> has handed out.
\<close>

record 's world =
  store :: 's
  trace :: "call list"
  uuid_next :: nat

section \<open>The service\<close>

record pagination =
  pg_default :: "int option"
  pg_max :: "int option"

text \<open>
  \<^verbatim>\<open>QueryConsistency\<close> and \<^verbatim>\<open>QueryBuilder\<close> come from \<^verbatim>\<open>../querybuilder\<close>, and \<^verbatim>\<open>uuid\<close> from
  \<^verbatim>\<open>uuid/v4\<close>; they are parameters of the service here. \<open>qb_interpret\<close> is
  \<^verbatim>\<open>new QueryBuilder(bucket).interpret\<close>: it returns the statement and its values, or throws.
  \<open>uuid n\<close> is the \<open>n\<close>-th identifier \<^verbatim>\<open>uuid()\<close> returns.
\<close>

record query_consistency =
  NOT_BOUNDED :: jsval
  REQUEST_PLUS :: jsval
  STATEMENT_PLUS :: jsval

record 's service =
  name :: string
  bucket :: string
  id_field :: string
  separator :: string
  paginate :: pagination
  connection :: "'s client"
  qb_interpret :: "string \<Rightarrow> jsobj \<Rightarrow> error + (string \<times> jsval list)"
  QueryConsistency :: query_consistency
  uuid :: "nat \<Rightarrow> string"

text \<open>
  The constructor: \<^verbatim>\<open>bucket\<close>, \<^verbatim>\<open>connection\<close> and \<^verbatim>\<open>name\<close> are required,
  \<^verbatim>\<open>this.id = opts.id || 'uuid'\<close>, \<^verbatim>\<open>this.paginate = opts.paginate || {}\<close>,
  \<^verbatim>\<open>this.separator = opts.separator || '::'\<close>.
\<close>

record 's opts =
  opts_bucket :: "string option"
  opts_connection :: "'s client option"
  opts_name :: "string option"
  opts_separator :: "string option"
  opts_paginate :: "pagination option"
  opts_id :: "string option"

definition or_default :: "string option \<Rightarrow> string \<Rightarrow> string" where
  "or_default v d = (case v of None \<Rightarrow> d | Some s \<Rightarrow> if s = [] then d else s)"

definition constructor ::
  "(string \<Rightarrow> jsobj \<Rightarrow> error + (string \<times> jsval list)) \<Rightarrow> query_consistency \<Rightarrow> (nat \<Rightarrow> string)
    \<Rightarrow> 's opts \<Rightarrow> error + 's service" where
  "constructor qb qc gen opts =
     (case opts_bucket opts of
        None \<Rightarrow> Inl (JsError ''Must pass bucket name'')
      | Some b \<Rightarrow>
     (case opts_connection opts of
        None \<Rightarrow> Inl (JsError ''Must pass bucket connection'')
      | Some c \<Rightarrow>
     (case opts_name opts of
        None \<Rightarrow> Inl (JsError ''Name of service must be specified'')
      | Some n \<Rightarrow>
          Inr \<lparr> name = n, bucket = b,
                id_field = or_default (opts_id opts) ''uuid'',
                separator = or_default (opts_separator opts) ''::'',
                paginate = (case opts_paginate opts of
                              None \<Rightarrow> \<lparr> pg_default = None, pg_max = None \<rparr>
                            | Some p \<Rightarrow> p),
                connection = c, qb_interpret = qb, QueryConsistency = qc, uuid = gen \<rparr>)))"

subsection \<open>Keys and identifiers\<close>

text \<open>
  The text \<^verbatim>\<open>Array.prototype.join\<close> makes of one element. A number is printed with all
  its digits, as JavaScript prints an integer of absolute value below \<open>10\<^sup>2\<^sup>1\<close> (a larger
  one it prints in exponent form, which is outside this model).
\<close>

definition digit :: "nat \<Rightarrow> char" where
  "digit n = ''0123456789'' ! (n mod 10)"

fun show_nat :: "nat \<Rightarrow> string" where
  "show_nat n = (if n < 10 then [digit n] else show_nat (n div 10) @ [digit n])"

declare show_nat.simps [simp del]

definition show_int :: "int \<Rightarrow> string" where
  "show_int i = (if i < 0 then CHR ''-'' # show_nat (nat (- i)) else show_nat (nat i))"

fun join_with :: "string \<Rightarrow> string list \<Rightarrow> string" where
  "join_with sep [] = []"
| "join_with sep [x] = x"
| "join_with sep (x # y # ys) = x @ sep @ join_with sep (y # ys)"

fun join_str :: "jsval \<Rightarrow> string" where
  "join_str JUndefined = []"
| "join_str JNull = []"
| "join_str (JBool b) = (if b then ''true'' else ''false'')"
| "join_str (JNum n) = show_int n"
| "join_str (JStr s) = s"
| "join_str (JArr xs) = join_with '','' (map join_str xs)"
| "join_str (JObj _) = ''[object Object]''"
| "join_str (JWrap b _) = join_str b"

text \<open>\<^verbatim>\<open>_key(key = '')\<close>: \<^verbatim>\<open>[this.opts.name || '', key].join(this.separator)\<close>.\<close>

definition priv_key :: "'s service \<Rightarrow> jsval \<Rightarrow> string" where
  "priv_key S key = join_with (separator S) [name S, join_str key]"

text \<open>
  \<^verbatim>\<open>_id(data)\<close>: \<^verbatim>\<open>if (!(this.id in data)) { data[this.id] = uuid(); } return data[this.id];\<close>
  The \<^verbatim>\<open>in\<close> operator throws on a value that is not an object. The result is the
  identifier and \<open>data\<close> as the call leaves it.
\<close>

fun is_object :: "jsval \<Rightarrow> bool" where
  "is_object (JArr _) = True"
| "is_object (JObj _) = True"
| "is_object (JWrap _ _) = True"
| "is_object _ = False"

fun set_prop :: "jsval \<Rightarrow> string \<Rightarrow> jsval \<Rightarrow> jsval" where
  "set_prop (JObj fs) k x = JObj (AList.update k x fs)"
| "set_prop (JWrap b fs) k x = JWrap b (AList.update k x fs)"
| "set_prop v k x = JWrap v [(k, x)]"

definition priv_id :: "'s service \<Rightarrow> jsval \<Rightarrow> 's world \<Rightarrow> (error + jsval \<times> jsval) \<times> 's world" where
  "priv_id S data w =
     (if \<not> is_object data then (Inl (TypeError ''Cannot use in operator''), w)
      else if map_of (own_props data) (id_field S) = None
      then (let data' = set_prop data (id_field S) (JStr (uuid S (uuid_next w)))
            in (Inr (get_prop data' (id_field S), data'), w\<lparr>uuid_next := Suc (uuid_next w)\<rparr>))
      else (Inr (get_prop data (id_field S), data), w))"

subsection \<open>get\<close>

text \<open>
  \<^verbatim>\<open>get(id, params)\<close>: the callback of \<^verbatim>\<open>bucket.get(this._key(id), ...)\<close> rejects with
  \<^verbatim>\<open>NotFound\<close> on the missing-key code and with the client's error otherwise (the second
  \<^verbatim>\<open>reject\<close> after a first one has no effect); without an error it rejects on an empty
  element and resolves \<^verbatim>\<open>element.value || element\<close> otherwise. \<^verbatim>\<open>params\<close> is not used.
\<close>

record params =
  query :: "jsobj option"
  params_paginate :: "pagination option"

definition log_call :: "call \<Rightarrow> 's \<Rightarrow> 's world \<Rightarrow> 's world" where
  "log_call c s w = w\<lparr>store := s, trace := trace w @ [c]\<rparr>"

definition get :: "'s service \<Rightarrow> jsval \<Rightarrow> params option \<Rightarrow> 's world \<Rightarrow> jsval outcome \<times> 's world" where
  "get S i ps w =
     (let k = priv_key S i;
          ((err, element), s) = bucket_get (connection S) k (store w);
          w' = log_call (CGet k) s w
      in (case err of
            Some e \<Rightarrow>
              if code e = keyNotFound then (Rejected (NotFound ''Does not exist''), w')
              else (Rejected (StoreError e), w')
          | None \<Rightarrow>
              if nullish element then (Rejected (NotFound ''Does not exist''), w')
              else (Resolved (if truthy (get_prop element ''value'')
                              then get_prop element ''value'' else element), w')))"

subsection \<open>remove\<close>

text \<open>
  \<^verbatim>\<open>remove(id, params)\<close> resolves its promise with the promise
  \<^verbatim>\<open>this.get(id, params).then(data => ... bucket.remove(this._key(this._id(data))))\<close>,
  so it settles as that chain does: rejected as \<^verbatim>\<open>get\<close> is, rejected by what \<^verbatim>\<open>_id\<close> or the
  client's \<^verbatim>\<open>remove\<close> throws, and resolved with the value the client's \<^verbatim>\<open>remove\<close> returns.
\<close>

definition remove :: "'s service \<Rightarrow> jsval \<Rightarrow> params option \<Rightarrow> 's world \<Rightarrow> jsval outcome \<times> 's world" where
  "remove S i ps w =
     (case get S i ps w of
        (Resolved data, w1) \<Rightarrow>
          (case priv_id S data w1 of
             (Inl e, w2) \<Rightarrow> (Rejected e, w2)
           | (Inr (idv, data'), w2) \<Rightarrow>
               (let k = priv_key S idv;
                    (r, s) = bucket_remove (connection S) k (store w2);
                    w3 = log_call (CRemove k) s w2
                in (case r of Inl e \<Rightarrow> (Rejected e, w3) | Inr v \<Rightarrow> (Resolved v, w3))))
      | (Rejected e, w1) \<Rightarrow> (Rejected e, w1)
      | (Pending, w1) \<Rightarrow> (Pending, w1))"

subsection \<open>create, patch and update\<close>

text \<open>
  \<^verbatim>\<open>Object.assign(target, source)\<close> sets each own property of the source on the target, in
  order, and returns the target; a \<^verbatim>\<open>null\<close> or \<^verbatim>\<open>undefined\<close> source is skipped and a
  \<^verbatim>\<open>null\<close> or \<^verbatim>\<open>undefined\<close> target throws.
\<close>

definition assign_fields :: "jsobj \<Rightarrow> jsobj \<Rightarrow> jsobj" where
  "assign_fields target src = fold (\<lambda>(k, x). AList.update k x) src target"

definition object_assign :: "jsval \<Rightarrow> jsobj option \<Rightarrow> error + jsval" where
  "object_assign target source =
     (let src = (case source of None \<Rightarrow> [] | Some d \<Rightarrow> d)
      in (case target of
            JUndefined \<Rightarrow> Inl (TypeError ''Cannot convert undefined or null to object'')
          | JNull \<Rightarrow> Inl (TypeError ''Cannot convert undefined or null to object'')
          | JObj fs \<Rightarrow> Inr (JObj (assign_fields fs src))
          | JWrap b fs \<Rightarrow> Inr (JWrap b (assign_fields fs src))
          | v \<Rightarrow> Inr (JWrap v (assign_fields [] src))))"

text \<open>
  \<^verbatim>\<open>create(data, params)\<close>: after \<^verbatim>\<open>reject(new BadRequest(...))\<close> the executor goes on and
  throws on \<^verbatim>\<open>data._type\<close>, which a settled promise ignores. \<^verbatim>\<open>_id\<close> and \<^verbatim>\<open>_key\<close> run
  inside the \<^verbatim>\<open>then\<close> of \<^verbatim>\<open>schema()\<close>, where a throw reaches no promise. The callback of
  \<^verbatim>\<open>bucket.insert\<close> does not look at \<^verbatim>\<open>err\<close>: it resolves with
  \<^verbatim>\<open>this.get(this._id(data), params)\<close>.
\<close>

definition create :: "'s service \<Rightarrow> jsobj option \<Rightarrow> params option \<Rightarrow> 's world \<Rightarrow> jsval outcome \<times> 's world" where
  "create S data ps w =
     (case data of
        None \<Rightarrow> (Rejected (BadRequest ''No data passed to create''), w)
      | Some d \<Rightarrow>
          (case priv_id S (JObj (AList.update ''_type'' (JStr (name S)) d)) w of
             (Inl e, w1) \<Rightarrow> (Pending, w1)
           | (Inr (idv, d1), w1) \<Rightarrow>
               (let k = priv_key S idv;
                    (err, s) = bucket_insert (connection S) k d1 (store w1);
                    w2 = log_call (CInsert k d1) s w1
                in (case priv_id S d1 w2 of
                      (Inl e, w3) \<Rightarrow> (Pending, w3)
                    | (Inr (idv', d2), w3) \<Rightarrow> get S idv' ps w3))))"

text \<open>
  \<^verbatim>\<open>patch(id, data, params)\<close>: nothing handles a rejection of the first \<^verbatim>\<open>get\<close>, so the
  promise of \<^verbatim>\<open>patch\<close> then stays pending. The callback of \<^verbatim>\<open>bucket.replace\<close> does not look
  at \<^verbatim>\<open>err\<close>: it resolves with \<^verbatim>\<open>this.get(id, params)\<close>.
\<close>

definition patch :: "'s service \<Rightarrow> jsval \<Rightarrow> jsobj option \<Rightarrow> params option \<Rightarrow> 's world \<Rightarrow> jsval outcome \<times> 's world" where
  "patch S i data ps w =
     (case get S i ps w of
        (Resolved obj, w1) \<Rightarrow>
          (case object_assign obj data of
             Inl e \<Rightarrow> (Pending, w1)
           | Inr merged \<Rightarrow>
               (case object_assign merged (Some [(''_type'', JStr (name S))]) of
                  Inl e \<Rightarrow> (Pending, w1)
                | Inr payload \<Rightarrow>
                    (let k = priv_key S i;
                         (err, s) = bucket_replace (connection S) k payload (store w1);
                         w2 = log_call (CReplace k payload) s w1
                     in get S i ps w2)))
      | (Rejected e, w1) \<Rightarrow> (Pending, w1)
      | (Pending, w1) \<Rightarrow> (Pending, w1))"

text \<open>
  \<^verbatim>\<open>update(id, data, params)\<close>: \<^verbatim>\<open>this.patch(id, data, params).then((r) => { resolve(r); })\<close>
  inside a new promise, with no handler for a rejection.
\<close>

definition update :: "'s service \<Rightarrow> jsval \<Rightarrow> jsobj option \<Rightarrow> params option \<Rightarrow> 's world \<Rightarrow> jsval outcome \<times> 's world" where
  "update S i data ps w =
     (case patch S i data ps w of
        (Resolved r, w1) \<Rightarrow> (Resolved r, w1)
      | (Rejected e, w1) \<Rightarrow> (Pending, w1)
      | (Pending, w1) \<Rightarrow> (Pending, w1))"

subsection \<open>find\<close>

text \<open>
  \<^verbatim>\<open>_stripKeys(selected, results)\<close>: \<^verbatim>\<open>results.map\<close> over the rows, each row rebuilt from its
  own properties whose name \<^verbatim>\<open>selected.indexOf\<close> finds.
\<close>

definition strip_row :: "jsval list \<Rightarrow> jsval \<Rightarrow> jsval" where
  "strip_row selected a = JObj (filter (\<lambda>(key, x). JStr key \<in> set selected) (own_props a))"

fun array_elems :: "jsval \<Rightarrow> jsval list option" where
  "array_elems (JArr xs) = Some xs"
| "array_elems (JWrap b _) = array_elems b"
| "array_elems _ = None"

definition priv_stripKeys :: "jsval list \<Rightarrow> jsval \<Rightarrow> error + jsval" where
  "priv_stripKeys selected results =
     (case array_elems results of
        None \<Rightarrow> Inl (TypeError ''results.map is not a function'')
      | Some rows \<Rightarrow> Inr (JArr (map (strip_row selected) rows)))"

text \<open>\<^verbatim>\<open>for (let select of v)\<close>: the elements of an array, the characters of a string.\<close>

fun iterate :: "jsval \<Rightarrow> error + jsval list" where
  "iterate (JArr xs) = Inr xs"
| "iterate (JStr s) = Inr (map (\<lambda>c. JStr [c]) s)"
| "iterate (JWrap b _) = iterate b"
| "iterate _ = Inl (TypeError ''not iterable'')"

text \<open>
  \<^verbatim>\<open>_buildN1QL(couchbase, str, consistency, readonly)\<close>; \<^verbatim>\<open>===\<close> is equality of values here.
\<close>

definition priv_buildN1QL :: "'s service \<Rightarrow> string \<Rightarrow> jsval \<Rightarrow> bool \<Rightarrow> n1ql" where
  "priv_buildN1QL S str cons ro =
     \<lparr> statement = str,
       consistency =
         (if cons = NOT_BOUNDED (QueryConsistency S) then Some N_NOT_BOUNDED
          else if cons = REQUEST_PLUS (QueryConsistency S) then Some N_REQUEST_PLUS
          else if cons = STATEMENT_PLUS (QueryConsistency S) then Some N_STATEMENT_PLUS
          else None),
       readonly = ro \<rparr>"

text \<open>\<^verbatim>\<open>paginate.default\<close> as a condition: absent and \<open>0\<close> are false.\<close>

definition has_default :: "pagination \<Rightarrow> bool" where
  "has_default pg = (case pg_default pg of None \<Rightarrow> False | Some d \<Rightarrow> d \<noteq> 0)"

text \<open>
  \<^verbatim>\<open>_find(query, paginate, consistency = null)\<close>. The executor compiles the query, then moves
  \<^verbatim>\<open>$select\<close> out of it; what it throws rejects the promise. The callback of
  \<^verbatim>\<open>bucket.query\<close> does not look at \<^verbatim>\<open>err\<close>; what it throws reaches no promise, which then
  stays pending. Without a default it resolves with the rows (the second \<^verbatim>\<open>resolve\<close> after
  it has no effect), otherwise with the envelope. The result carries the query object as
  the call leaves it.
\<close>

definition priv_find ::
  "'s service \<Rightarrow> jsobj \<Rightarrow> pagination \<Rightarrow> jsval \<Rightarrow> 's world \<Rightarrow> jsval outcome \<times> jsobj \<times> 's world" where
  "priv_find S q pg cons w =
     (case qb_interpret S (bucket S) q of
        Inl e \<Rightarrow> (Rejected e, q, w)
      | Inr (queryStr, values) \<Rightarrow>
          (case (if truthy (field q ''$select'')
                 then (case iterate (field q ''$select'') of
                         Inl e \<Rightarrow> Inl e
                       | Inr sel \<Rightarrow> Inr (sel, AList.delete ''$select'' q))
                 else Inr ([], q)) of
             Inl e \<Rightarrow> (Rejected e, q, w)
           | Inr (selected, q') \<Rightarrow>
               (let n = priv_buildN1QL S queryStr (if cons = JUndefined then JNull else cons) True;
                    ((err, results, queryData), s) = bucket_query (connection S) n values (store w);
                    w' = log_call (CQuery n values) s w
                in (case (if selected \<noteq> [] then priv_stripKeys selected results else Inr results) of
                      Inl e \<Rightarrow> (Pending, q', w')
                    | Inr rows \<Rightarrow>
                        if \<not> has_default pg then (Resolved rows, q', w')
                        else if nullish queryData \<or> nullish (get_prop queryData ''metrics'')
                        then (Pending, q', w')
                        else (Resolved (JObj
                               [(''total'', get_prop (get_prop queryData ''metrics'') ''resultCount''),
                                (''limit'', field q' ''$limit''),
                                (''skip'', if nullish (field q' ''$skip'') then JNum 0
                                           else field q' ''$skip''),
                                (''data'', rows)]), q', w')))))"

text \<open>
  The number a value is read as when \<^verbatim>\<open><\<close> or \<^verbatim>\<open>>\<close> compares it with a number.
  \<open>Finite m e\<close> is \<open>m \<times> 10\<^sup>e\<close>. A string is read as JavaScript reads a numeric string: white
  space around it is dropped, the empty string is \<open>0\<close>, then come the forms \<^verbatim>\<open>0x\<close>,
  \<^verbatim>\<open>0o\<close>, \<^verbatim>\<open>0b\<close>, a signed \<^verbatim>\<open>Infinity\<close>, and a signed decimal with an optional fraction and
  exponent; anything else is \<^verbatim>\<open>NaN\<close>. An array is read through its \<^verbatim>\<open>join\<close>, a wrapper
  through what it wraps, a plain object is \<^verbatim>\<open>NaN\<close>.
\<close>

datatype jsnumber = NaN | PosInfinity | NegInfinity | Finite int int

fun less_than :: "jsnumber \<Rightarrow> int \<Rightarrow> bool" where
  "less_than NaN k = False"
| "less_than PosInfinity k = False"
| "less_than NegInfinity k = True"
| "less_than (Finite m e) k = (if 0 \<le> e then m * 10 ^ nat e < k else m < k * 10 ^ nat (- e))"

fun greater_than :: "jsnumber \<Rightarrow> int \<Rightarrow> bool" where
  "greater_than NaN k = False"
| "greater_than PosInfinity k = True"
| "greater_than NegInfinity k = False"
| "greater_than (Finite m e) k = (if 0 \<le> e then k < m * 10 ^ nat e else k * 10 ^ nat (- e) < m)"

definition is_space :: "char \<Rightarrow> bool" where
  "is_space c = (c \<in> set [CHR 0x09, CHR 0x0A, CHR 0x0B, CHR 0x0C, CHR 0x0D, CHR '' ''])"

definition trim :: "string \<Rightarrow> string" where
  "trim s = rev (dropWhile is_space (rev (dropWhile is_space s)))"

definition digit_of :: "char \<Rightarrow> nat option" where
  "digit_of c = map_of (zip ''0123456789abcdef'' [0 ..< 16] @ zip ''ABCDEF'' [10 ..< 16]) c"

text \<open>The value of a run of digits in a base; nothing when it is empty or holds another
  character.\<close>

definition digits_in :: "nat \<Rightarrow> string \<Rightarrow> int option" where
  "digits_in base s =
     (if s \<noteq> [] \<and> list_all (\<lambda>c. case digit_of c of None \<Rightarrow> False | Some d \<Rightarrow> d < base) s
      then Some (foldl (\<lambda>acc c. acc * int base
                          + int (case digit_of c of None \<Rightarrow> 0 | Some d \<Rightarrow> d)) 0 s)
      else None)"

definition all_digits :: "string \<Rightarrow> bool" where
  "all_digits s = list_all (\<lambda>c. c \<in> set ''0123456789'') s"

definition exponent_of :: "string \<Rightarrow> int option" where
  "exponent_of s =
     (case s of
        CHR ''+'' # r \<Rightarrow> digits_in 10 r
      | CHR ''-'' # r \<Rightarrow> map_option uminus (digits_in 10 r)
      | _ \<Rightarrow> digits_in 10 s)"

definition is_e :: "char \<Rightarrow> bool" where
  "is_e c = (c = CHR ''e'' \<or> c = CHR ''E'')"

definition unsigned_decimal :: "string \<Rightarrow> jsnumber" where
  "unsigned_decimal s =
     (let mant = takeWhile (\<lambda>c. \<not> is_e c) s;
          rest = dropWhile (\<lambda>c. \<not> is_e c) s;
          whole = takeWhile (\<lambda>c. c \<noteq> CHR ''.'') mant;
          frac = drop 1 (dropWhile (\<lambda>c. c \<noteq> CHR ''.'') mant);
          ex = (if rest = [] then Some 0 else exponent_of (tl rest))
      in if whole @ frac \<noteq> [] \<and> all_digits whole \<and> all_digits frac
         then (case ex of
                 None \<Rightarrow> NaN
               | Some e \<Rightarrow> (case digits_in 10 (whole @ frac) of
                              None \<Rightarrow> NaN
                            | Some m \<Rightarrow> Finite m (e - int (length frac))))
         else NaN)"

definition negate :: "jsnumber \<Rightarrow> jsnumber" where
  "negate x = (case x of NaN \<Rightarrow> NaN | PosInfinity \<Rightarrow> NegInfinity | NegInfinity \<Rightarrow> PosInfinity
               | Finite m e \<Rightarrow> Finite (- m) e)"

definition signed_decimal :: "string \<Rightarrow> jsnumber" where
  "signed_decimal s =
     (let r = (case s of CHR ''+'' # r \<Rightarrow> r | CHR ''-'' # r \<Rightarrow> r | _ \<Rightarrow> s);
          x = (if r = ''Infinity'' then PosInfinity else unsigned_decimal r)
      in (case s of CHR ''-'' # _ \<Rightarrow> negate x | _ \<Rightarrow> x))"

definition based :: "nat \<Rightarrow> string \<Rightarrow> jsnumber" where
  "based base s = (case digits_in base s of None \<Rightarrow> NaN | Some m \<Rightarrow> Finite m 0)"

definition string_to_number :: "string \<Rightarrow> jsnumber" where
  "string_to_number s =
     (let t = trim s
      in if t = [] then Finite 0 0
         else if take 2 t = ''0x'' \<or> take 2 t = ''0X'' then based 16 (drop 2 t)
         else if take 2 t = ''0o'' \<or> take 2 t = ''0O'' then based 8 (drop 2 t)
         else if take 2 t = ''0b'' \<or> take 2 t = ''0B'' then based 2 (drop 2 t)
         else signed_decimal t)"

fun to_number :: "jsval \<Rightarrow> jsnumber" where
  "to_number JUndefined = NaN"
| "to_number JNull = Finite 0 0"
| "to_number (JBool b) = Finite (if b then 1 else 0) 0"
| "to_number (JNum n) = Finite n 0"
| "to_number (JStr s) = string_to_number s"
| "to_number (JArr xs) = string_to_number (join_str (JArr xs))"
| "to_number (JObj fs) = NaN"
| "to_number (JWrap b fs) = to_number b"

text \<open>
  \<^verbatim>\<open>R.clamp(min, max)(value)\<close> of Ramda: throws when \<^verbatim>\<open>min > max\<close>, else
  \<^verbatim>\<open>value < min ? min : value > max ? max : value\<close>, where the comparisons read the
  value as a number and the value itself comes back when neither holds. With \<^verbatim>\<open>max\<close>
  undefined both comparisons with it are false.
\<close>

definition R_clamp :: "int \<Rightarrow> int option \<Rightarrow> jsval \<Rightarrow> error + jsval" where
  "R_clamp lo hi v =
     (if (case hi of None \<Rightarrow> False | Some h \<Rightarrow> lo > h)
      then Inl (JsError ''min must not be greater than max in clamp(min, max, value)'')
      else Inr (if less_than (to_number v) lo then JNum lo
                else (case hi of
                        None \<Rightarrow> v
                      | Some h \<Rightarrow> if greater_than (to_number v) h then JNum h else v)))"

text \<open>
  \<^verbatim>\<open>find(params)\<close>. After each \<^verbatim>\<open>reject(new BadRequest(...))\<close> the executor goes on and
  throws (on \<^verbatim>\<open>params.query\<close>, on \<^verbatim>\<open>query._type\<close>), which a settled promise ignores. What
  \<^verbatim>\<open>R.clamp\<close> throws rejects the promise. The last statement is read as
  \<^verbatim>\<open>this._find(query, paginate, consistency).then((r) => { resolve(r); })\<close>: a rejection of
  \<^verbatim>\<open>_find\<close> has no handler. The result carries the caller's query object as the call
  leaves it (\<open>None\<close> when there is none). \<open>find_tail\<close> is what \<^verbatim>\<open>find\<close> does once the
  limit is settled: it takes \<^verbatim>\<open>$consistency\<close> out of the query and calls \<^verbatim>\<open>_find\<close>.
\<close>

definition find_tail ::
  "'s service \<Rightarrow> jsobj \<Rightarrow> pagination \<Rightarrow> 's world \<Rightarrow> jsval outcome \<times> jsobj option \<times> 's world" where
  "find_tail S q pg w =
     (let cons = field q ''$consistency'';
          q' = (if map_of q ''$consistency'' \<noteq> None then AList.delete ''$consistency'' q else q)
      in (case priv_find S q' pg cons w of
            (Resolved r, q'', w') \<Rightarrow> (Resolved r, Some q'', w')
          | (Rejected e, q'', w') \<Rightarrow> (Pending, Some q'', w')
          | (Pending, q'', w') \<Rightarrow> (Pending, Some q'', w')))"

definition find_svc ::
  "'s service \<Rightarrow> params option \<Rightarrow> 's world \<Rightarrow> jsval outcome \<times> jsobj option \<times> 's world" where
  "find_svc S ps w =
     (case ps of
        None \<Rightarrow> (Rejected (BadRequest ''Null passed to find''), None, w)
      | Some p \<Rightarrow>
          (let pg = (case params_paginate p of Some g \<Rightarrow> g | None \<Rightarrow> paginate S)
           in (case query p of
                 None \<Rightarrow> (Rejected (BadRequest ''Null query object passed''), None, w)
               | Some q0 \<Rightarrow>
                   (let q1 = AList.update ''_type'' (JStr (name S)) q0
                    in if has_default pg
                       then (let q2 = (if nullish (field q1 ''$limit'')
                                       then AList.update ''$limit''
                                              (case pg_default pg of Some d \<Rightarrow> JNum d | None \<Rightarrow> JUndefined) q1
                                       else q1)
                             in (case R_clamp 0 (pg_max pg) (field q2 ''$limit'') of
                                   Inl e \<Rightarrow> (Rejected e, Some q2, w)
                                 | Inr v \<Rightarrow> find_tail S (AList.update ''$limit'' v q2) pg w))
                       else find_tail S q1 pg w))))"

section \<open>An in-memory client\<close>

text \<open>
  A client to run the service on: documents by key, a script of faults (each call takes
  the next entry, and fails with it when it is an error) and a queue of answers to
  \<^verbatim>\<open>query\<close>. \<^verbatim>\<open>get\<close> hands back \<^verbatim>\<open>{ cas, value }\<close>; \<^verbatim>\<open>insert\<close> fails on a key that exists
  (code 12), \<^verbatim>\<open>replace\<close> on one that does not; \<^verbatim>\<open>remove\<close>, called without a callback,
  deletes and returns \<^verbatim>\<open>undefined\<close>.
\<close>

record mem =
  docs :: "(string \<times> jsval) list"
  faults :: "store_error option list"
  answers :: "(jsval \<times> jsval) list"

definition next_fault :: "mem \<Rightarrow> store_error option \<times> mem" where
  "next_fault m = (case faults m of [] \<Rightarrow> (None, m) | f # fs \<Rightarrow> (f, m\<lparr>faults := fs\<rparr>))"

definition mem_get :: "string \<Rightarrow> mem \<Rightarrow> (store_error option \<times> jsval) \<times> mem" where
  "mem_get k m =
     (case next_fault m of
        (Some e, m') \<Rightarrow> ((Some e, JNull), m')
      | (None, m') \<Rightarrow>
          (case map_of (docs m') k of
             None \<Rightarrow> ((Some (StoreErr keyNotFound ''key not found''), JNull), m')
           | Some v \<Rightarrow> ((None, JObj [(''cas'', JNum 1), (''value'', v)]), m')))"

definition mem_insert :: "string \<Rightarrow> jsval \<Rightarrow> mem \<Rightarrow> store_error option \<times> mem" where
  "mem_insert k v m =
     (case next_fault m of
        (Some e, m') \<Rightarrow> (Some e, m')
      | (None, m') \<Rightarrow>
          (case map_of (docs m') k of
             Some _ \<Rightarrow> (Some (StoreErr 12 ''key already exists''), m')
           | None \<Rightarrow> (None, m'\<lparr>docs := AList.update k v (docs m')\<rparr>)))"

definition mem_replace :: "string \<Rightarrow> jsval \<Rightarrow> mem \<Rightarrow> store_error option \<times> mem" where
  "mem_replace k v m =
     (case next_fault m of
        (Some e, m') \<Rightarrow> (Some e, m')
      | (None, m') \<Rightarrow>
          (case map_of (docs m') k of
             None \<Rightarrow> (Some (StoreErr keyNotFound ''key not found''), m')
           | Some _ \<Rightarrow> (None, m'\<lparr>docs := AList.update k v (docs m')\<rparr>)))"

definition mem_remove :: "string \<Rightarrow> mem \<Rightarrow> (error + jsval) \<times> mem" where
  "mem_remove k m =
     (case next_fault m of
        (Some e, m') \<Rightarrow> (Inl (StoreError e), m')
      | (None, m') \<Rightarrow> (Inr JUndefined, m'\<lparr>docs := AList.delete k (docs m')\<rparr>))"

definition mem_query :: "n1ql \<Rightarrow> jsval list \<Rightarrow> mem \<Rightarrow> (store_error option \<times> jsval \<times> jsval) \<times> mem" where
  "mem_query n vs m =
     (case next_fault m of
        (Some e, m') \<Rightarrow> ((Some e, JUndefined, JUndefined), m')
      | (None, m') \<Rightarrow>
          (case answers m' of
             [] \<Rightarrow> ((Some (StoreErr 0 ''no data in queue''), JUndefined, JUndefined), m')
           | (rows, meta) # rest \<Rightarrow> ((None, rows, meta), m'\<lparr>answers := rest\<rparr>)))"

definition mem_client :: "mem client" where
  "mem_client = \<lparr> bucket_get = mem_get, bucket_insert = mem_insert, bucket_replace = mem_replace,
                  bucket_remove = mem_remove, bucket_query = mem_query \<rparr>"

text \<open>
  The service of the test suite: \<^verbatim>\<open>{ bucket: 'testbucket', name: 'users', id: 'uuid' }\<close>,
  here with a query builder that gives every filter the same statement, with the filter's
  \<^verbatim>\<open>$limit\<close> as its only value, and with the identifiers \<^verbatim>\<open>id0\<close>, \<^verbatim>\<open>id1\<close>, ...
\<close>

definition users :: "pagination \<Rightarrow> mem service" where
  "users pg = \<lparr> name = ''users'', bucket = ''testbucket'', id_field = ''uuid'', separator = ''::'',
                paginate = pg, connection = mem_client,
                qb_interpret = (\<lambda>b q. Inr (''SELECT'', [field q ''$limit''])),
                QueryConsistency = \<lparr> NOT_BOUNDED = JNum 1, REQUEST_PLUS = JNum 2, STATEMENT_PLUS = JNum 3 \<rparr>,
                uuid = (\<lambda>n. ''id'' @ show_nat n) \<rparr>"

definition no_pagination :: pagination where
  "no_pagination = \<lparr> pg_default = None, pg_max = None \<rparr>"

definition start :: "mem \<Rightarrow> mem world" where
  "start m = \<lparr> store = m, trace = [], uuid_next = 0 \<rparr>"

text \<open>Stores to run it on. \<open>timeout\<close> is the client's error for a request that timed out.\<close>

definition store_a :: mem where
  "store_a = \<lparr> docs = [(''users::a'', JObj [(''uuid'', JStr ''a''), (''foo'', JStr ''bar'')])],
               faults = [], answers = [] \<rparr>"

definition store_b :: mem where
  "store_b = \<lparr> docs = [(''users::a'', JObj [(''uuid'', JStr ''b''), (''foo'', JStr ''bar'')]),
                       (''users::c'', JObj [(''foo'', JStr ''baz'')])],
               faults = [], answers = [] \<rparr>"

definition store_one :: mem where
  "store_one = \<lparr> docs = [(''users::1'', JObj [(''uuid'', JNum 1), (''foo'', JStr ''bar'')])],
                 faults = [], answers = [] \<rparr>"

definition timeout :: store_error where
  "timeout = StoreErr 23 ''timeout''"

definition store_replace_fails :: mem where
  "store_replace_fails = store_a\<lparr>faults := [None, Some timeout]\<rparr>"

definition store_get_fails :: mem where
  "store_get_fails = store_a\<lparr>faults := [None, None, Some timeout]\<rparr>"

definition store_rows :: mem where
  "store_rows = \<lparr> docs = [], faults = [],
                  answers = [(JArr [JObj [(''foo'', JStr ''bar''), (''bar'', JStr ''foo'')],
                                    JObj [(''foo'', JStr ''bar''), (''bar'', JStr ''foo'')]],
                              JObj [(''metrics'', JObj [(''resultCount'', JNum 2)])])] \<rparr>"

text \<open>\<^verbatim>\<open>paginate: { default: 10, max: 50 }\<close> and \<^verbatim>\<open>find({ query: q })\<close>.\<close>

definition ten_fifty :: pagination where
  "ten_fifty = \<lparr> pg_default = Some 10, pg_max = Some 50 \<rparr>"

definition with_query :: "jsobj \<Rightarrow> params option" where
  "with_query q = Some \<lparr> query = Some q, params_paginate = None \<rparr>"

section \<open>Reading a trace\<close>

text \<open>
  The calls an operation has added to the trace, and the test that a call, when it writes
  a document, writes one whose \<^verbatim>\<open>_type\<close> is \<open>n\<close>.
\<close>

definition new_calls :: "'s world \<Rightarrow> 's world \<Rightarrow> call list" where
  "new_calls w w' = drop (length (trace w)) (trace w')"

fun typed_write :: "string \<Rightarrow> call \<Rightarrow> bool" where
  "typed_write n (CInsert k v) = (get_prop v ''_type'' = JStr n)"
| "typed_write n (CReplace k v) = (get_prop v ''_type'' = JStr n)"
| "typed_write n _ = True"

section \<open>Properties\<close>

lemmas mem_defs = mem_client_def mem_get_def mem_insert_def mem_replace_def mem_remove_def
  mem_query_def next_fault_def keyNotFound_def

lemmas svc_defs = get_def remove_def create_def patch_def update_def priv_key_def priv_id_def
  log_call_def get_prop_def field_def object_assign_def assign_fields_def

lemmas eval_defs = svc_defs mem_defs users_def no_pagination_def start_def store_a_def store_b_def
  timeout_def store_replace_fails_def store_get_fails_def Let_def show_nat.simps digit_def

lemmas find_defs = find_svc_def find_tail_def priv_find_def priv_buildN1QL_def priv_stripKeys_def
  strip_row_def has_default_def R_clamp_def store_rows_def ten_fifty_def with_query_def new_calls_def

subsection \<open>get and remove\<close>

lemma get_trace: "trace (snd (get S i ps w)) = trace w @ [CGet (priv_key S i)]"
  by (simp add: get_def log_call_def Let_def split: prod.splits option.splits)

lemma get_uuid_next: "uuid_next (snd (get S i ps w)) = uuid_next w"
  by (simp add: get_def log_call_def Let_def split: prod.splits option.splits)

lemma priv_key_eq_iff: "priv_key S a = priv_key S b \<longleftrightarrow> join_str a = join_str b"
  by (simp add: priv_key_def)

lemma get_prop_set_prop: "get_prop (set_prop d k x) k = x"
  by (cases d) (simp_all add: get_prop_def update_conv')

text \<open>Once the entity is read and has its id, \<^verbatim>\<open>remove\<close> settles as the client's call does.\<close>

lemma remove_settles_as_client:
  assumes "get S i ps w = (Resolved data, w1)"
    and "priv_id S data w1 = (Inr (idv, data'), w2)"
  shows "fst (remove S i ps w)
           = (case fst (bucket_remove (connection S) (priv_key S idv) (store w2)) of
                Inl e \<Rightarrow> Rejected e
              | Inr v \<Rightarrow> Resolved v)"
  using assms by (simp add: remove_def Let_def split: prod.splits sum.splits)

text \<open>
  C1. The claim: for an id whose entity exists, \<^verbatim>\<open>remove\<close> resolves with the removed entity
  as it was read before the deletion. The code resolves with what the client's \<^verbatim>\<open>remove\<close>
  returns. On \<open>store_a\<close>, \<^verbatim>\<open>get('a')\<close> resolves with the entity
  \<^verbatim>\<open>{ uuid: 'a', foo: 'bar' }\<close> and \<^verbatim>\<open>remove('a')\<close> resolves with \<^verbatim>\<open>undefined\<close>.
\<close>

theorem remove_resolves_with_client_result:
  "fst (get (users no_pagination) (JStr ''a'') None (start store_a))
     = Resolved (JObj [(''uuid'', JStr ''a''), (''foo'', JStr ''bar'')])
   \<and> fst (remove (users no_pagination) (JStr ''a'') None (start store_a)) = Resolved JUndefined"
  by code_simp

text \<open>
  C9, amended. When \<^verbatim>\<open>remove(id, params)\<close> succeeds, the entity read is an object and the key
  given to the client's \<^verbatim>\<open>remove\<close> is built from the entity's id field, not from \<open>id\<close>:
  for an id field that is a string \<open>a\<close> it is the name, the separator and \<open>a\<close>, so that
  where \<open>id\<close> is another string the deletion goes to another key than the read; where the
  entity has no id field, the next \<^verbatim>\<open>uuid()\<close> is taken, written into the entity, and the key
  is the name, the separator and that identifier.
\<close>

theorem remove_key_from_entity:
  assumes "remove S i ps w = (Resolved r, w')"
  shows "\<exists>data w1. get S i ps w = (Resolved data, w1) \<and> is_object data \<and>
           (case map_of (own_props data) (id_field S) of
              Some v \<Rightarrow>
                trace w' = trace w @ [CGet (priv_key S i), CRemove (priv_key S v)]
                \<and> uuid_next w' = uuid_next w
                \<and> (\<forall>a. v = JStr a \<longrightarrow> priv_key S v = name S @ separator S @ a)
                \<and> (\<forall>a b. v = JStr a \<and> i = JStr b \<and> a \<noteq> b \<longrightarrow> priv_key S v \<noteq> priv_key S i)
            | None \<Rightarrow>
                trace w' = trace w @ [CGet (priv_key S i),
                                      CRemove (name S @ separator S @ uuid S (uuid_next w))]
                \<and> uuid_next w' = Suc (uuid_next w)
                \<and> fst (priv_id S data w1)
                    = Inr (JStr (uuid S (uuid_next w)),
                           set_prop data (id_field S) (JStr (uuid S (uuid_next w)))))"
proof -
  obtain o1 w1 where g: "get S i ps w = (o1, w1)" by (cases "get S i ps w")
  from assms g obtain data where o1: "o1 = Resolved data"
    by (cases o1) (auto simp: remove_def)
  have tr: "trace w1 = trace w @ [CGet (priv_key S i)]" and un: "uuid_next w1 = uuid_next w"
    using get_trace [of S i ps w] get_uuid_next [of S i ps w] g by simp_all
  have obj: "is_object data"
    using assms g o1 by (auto simp: remove_def priv_id_def split: if_splits)
  have ks: "priv_key S (JStr a) = name S @ separator S @ a" for a
    by (simp add: priv_key_def)
  show ?thesis
  proof (cases "map_of (own_props data) (id_field S)")
    case None
    then show ?thesis using assms g o1 tr un obj
      by (auto simp: remove_def priv_id_def log_call_def Let_def get_prop_set_prop ks
               split: prod.splits sum.splits)
  next
    case (Some v)
    then show ?thesis using assms g o1 tr un obj
      by (auto simp: remove_def priv_id_def log_call_def Let_def get_prop_def ks
               split: prod.splits sum.splits)
  qed
qed

theorem remove_key_from_entity_witness:
  "fst (remove (users no_pagination) (JStr ''a'') None (start store_b)) = Resolved JUndefined
   \<and> trace (snd (remove (users no_pagination) (JStr ''a'') None (start store_b)))
       = [CGet ''users::a'', CRemove ''users::b'']
   \<and> fst (remove (users no_pagination) (JStr ''c'') None (start store_b)) = Resolved JUndefined
   \<and> trace (snd (remove (users no_pagination) (JStr ''c'') None (start store_b)))
       = [CGet ''users::c'', CRemove ''users::id0'']"
proof -
  let ?S = "users no_pagination" and ?w = "start store_b"
  have fa: "fst (remove ?S (JStr ''a'') None ?w) = Resolved JUndefined"
    by (simp add: eval_defs)
  have fc: "fst (remove ?S (JStr ''c'') None ?w) = Resolved JUndefined"
    by (simp add: eval_defs)
  have a: "remove ?S (JStr ''a'') None ?w
             = (Resolved JUndefined, snd (remove ?S (JStr ''a'') None ?w))"
    using fa by (simp add: prod_eq_iff)
  have c: "remove ?S (JStr ''c'') None ?w
             = (Resolved JUndefined, snd (remove ?S (JStr ''c'') None ?w))"
    using fc by (simp add: prod_eq_iff)
  have ga: "get ?S (JStr ''a'') None ?w
              = (Resolved (JObj [(''uuid'', JStr ''b''), (''foo'', JStr ''bar'')]),
                 snd (get ?S (JStr ''a'') None ?w))"
    by (simp add: prod_eq_iff eval_defs)
  have gc: "get ?S (JStr ''c'') None ?w
              = (Resolved (JObj [(''foo'', JStr ''baz'')]), snd (get ?S (JStr ''c'') None ?w))"
    by (simp add: prod_eq_iff eval_defs)
  have ta: "trace (snd (remove ?S (JStr ''a'') None ?w)) = [CGet ''users::a'', CRemove ''users::b'']"
    using remove_key_from_entity [OF a] ga
    by (auto simp: users_def start_def priv_key_def)
  have tc: "trace (snd (remove ?S (JStr ''c'') None ?w)) = [CGet ''users::c'', CRemove ''users::id0'']"
    using remove_key_from_entity [OF c] gc
    by (auto simp: users_def start_def priv_key_def show_nat.simps digit_def)
  show ?thesis using fa fc ta tc by simp
qed

text \<open>
  An id field that is the number \<open>1\<close> differs from the id \<^verbatim>\<open>'1'\<close>, and has the same text:
  the key deleted is the key read.
\<close>

theorem remove_same_key_counterexample:
  "JNum 1 \<noteq> JStr ''1''
   \<and> fst (get (users no_pagination) (JStr ''1'') None (start store_one))
       = Resolved (JObj [(''uuid'', JNum 1), (''foo'', JStr ''bar'')])
   \<and> fst (remove (users no_pagination) (JStr ''1'') None (start store_one)) = Resolved JUndefined
   \<and> trace (snd (remove (users no_pagination) (JStr ''1'') None (start store_one)))
       = [CGet ''users::1'', CRemove ''users::1'']"
  by (simp add: eval_defs store_one_def show_int_def)

subsection \<open>Errors of the client in create, patch and update\<close>

text \<open>
  Whatever the client's \<^verbatim>\<open>replace\<close> reports, \<^verbatim>\<open>patch\<close> settles as a \<^verbatim>\<open>get\<close> after it does, and
  \<^verbatim>\<open>update\<close> passes on a resolution of \<^verbatim>\<open>patch\<close> and nothing else.
\<close>

lemma patch_settles_as_get:
  assumes "get S i ps w = (Resolved obj, w1)" and "\<not> nullish obj"
  shows "\<exists>w2. patch S i data ps w = get S i ps w2"
  using assms
  by (cases obj) (auto simp: patch_def object_assign_def Let_def split: prod.splits)

lemma update_settles:
  "fst (update S i data ps w)
     = (case fst (patch S i data ps w) of
          Resolved r \<Rightarrow> Resolved r
        | Rejected e \<Rightarrow> Pending
        | Pending \<Rightarrow> Pending)"
  by (simp add: update_def split: prod.splits outcome.splits)

text \<open>
  C2. The claim: an error of the store client that is not a missing key rejects the
  operation with that error. The callbacks of \<^verbatim>\<open>insert\<close> and \<^verbatim>\<open>replace\<close> ignore \<^verbatim>\<open>err\<close>.
  On \<open>store_a\<close> the insert of \<^verbatim>\<open>create({ uuid: 'a', x: 1 })\<close> fails, the key being there
  (code 12), and \<^verbatim>\<open>create\<close> resolves with the entity that was there; on
  \<open>store_replace_fails\<close> the replace of \<^verbatim>\<open>patch('a', { b: 2 })\<close> times out (the script of
  faults is used up by it) and \<^verbatim>\<open>patch\<close> resolves with the entity unchanged.
\<close>

theorem write_errors_are_swallowed:
  "fst (bucket_insert mem_client ''users::a''
          (JObj [(''uuid'', JStr ''a''), (''x'', JNum 1), (''_type'', JStr ''users'')]) store_a)
     = Some (StoreErr 12 ''key already exists'')
   \<and> fst (create (users no_pagination) (Some [(''uuid'', JStr ''a''), (''x'', JNum 1)]) None
            (start store_a))
     = Resolved (JObj [(''uuid'', JStr ''a''), (''foo'', JStr ''bar'')])
   \<and> trace (snd (create (users no_pagination) (Some [(''uuid'', JStr ''a''), (''x'', JNum 1)]) None
            (start store_a)))
     = [CInsert ''users::a''
          (JObj [(''uuid'', JStr ''a''), (''x'', JNum 1), (''_type'', JStr ''users'')]),
        CGet ''users::a'']
   \<and> fst (patch (users no_pagination) (JStr ''a'') (Some [(''b'', JNum 2)]) None
            (start store_replace_fails))
     = Resolved (JObj [(''uuid'', JStr ''a''), (''foo'', JStr ''bar'')])
   \<and> faults (store (snd (patch (users no_pagination) (JStr ''a'') (Some [(''b'', JNum 2)]) None
            (start store_replace_fails)))) = []"
  by (simp add: eval_defs)

text \<open>
  C3. The claim: \<^verbatim>\<open>update\<close> rejects with the same error whenever \<^verbatim>\<open>patch\<close> rejects. On
  \<open>store_get_fails\<close> the second \<^verbatim>\<open>get\<close> of \<^verbatim>\<open>patch('a', { b: 2 })\<close> times out: \<^verbatim>\<open>patch\<close>
  rejects with that error, and \<^verbatim>\<open>update\<close> with the same arguments never settles.
\<close>

theorem update_hangs_where_patch_rejects:
  "fst (patch (users no_pagination) (JStr ''a'') (Some [(''b'', JNum 2)]) None (start store_get_fails))
     = Rejected (StoreError timeout)
   \<and> fst (update (users no_pagination) (JStr ''a'') (Some [(''b'', JNum 2)]) None (start store_get_fails))
     = Pending"
  by (simp add: eval_defs)

subsection \<open>patch\<close>

lemma map_of_assign_fields:
  "distinct (map fst src) \<Longrightarrow> map_of (assign_fields t src) = map_of t ++ map_of src"
proof (induction src arbitrary: t)
  case Nil
  then show ?case by (simp add: assign_fields_def)
next
  case (Cons p src)
  obtain k x where p: "p = (k, x)" by (cases p)
  from Cons.prems p have nk: "k \<notin> fst ` set src" and d: "distinct (map fst src)" by auto
  have "map_of (assign_fields t (p # src)) = map_of (assign_fields (AList.update k x t) src)"
    by (simp add: assign_fields_def p)
  also have "\<dots> = (map_of t)(k \<mapsto> x) ++ map_of src"
    by (simp only: Cons.IH [OF d] update_conv')
  also have "\<dots> = map_of t ++ map_of (p # src)"
  proof (rule ext)
    fix y
    show "((map_of t)(k \<mapsto> x) ++ map_of src) y = (map_of t ++ map_of (p # src)) y"
      using nk by (auto simp: p map_add_def map_of_eq_None_iff [symmetric] split: option.splits)
  qed
  finally show ?case .
qed

lemma assign_type_last:
  "map_of (assign_fields fs [(''_type'', v)]) = (map_of fs)(''_type'' \<mapsto> v)"
  by (simp add: assign_fields_def update_conv')

lemma get_prop_assign_type:
  "object_assign m (Some [(''_type'', v)]) = Inr p \<Longrightarrow> get_prop p ''_type'' = v"
  by (cases m) (auto simp: object_assign_def get_prop_def assign_fields_def update_conv')

text \<open>
  C4. Where \<^verbatim>\<open>get(id)\<close> resolves with a stored entity \<open>ent\<close>, \<^verbatim>\<open>patch(id, data, params)\<close>
  reads it, calls the client's \<^verbatim>\<open>replace\<close> at the key of \<open>id\<close> with an entity whose fields
  are those of \<open>ent\<close>, overwritten by those of \<open>data\<close> (fields of \<open>ent\<close> that \<open>data\<close> lacks
  are kept), with \<^verbatim>\<open>_type\<close> set to the collection name, and settles as a fresh \<^verbatim>\<open>get(id)\<close>
  after the replace does. \<open>data\<close> is an object (with distinct field names) or absent.
\<close>

theorem patch_merges_and_replaces:
  assumes g: "get S i ps w = (Resolved (JObj ent), w1)"
    and src: "src = (case data of None \<Rightarrow> [] | Some d \<Rightarrow> d)"
    and d: "distinct (map fst src)"
  shows "\<exists>merged w2.
           map_of merged = (map_of ent ++ map_of src)(''_type'' \<mapsto> JStr (name S))
           \<and> w2 = log_call (CReplace (priv_key S i) (JObj merged))
                    (snd (bucket_replace (connection S) (priv_key S i) (JObj merged) (store w1))) w1
           \<and> patch S i data ps w = get S i ps w2
           \<and> trace (snd (patch S i data ps w))
               = trace w @ [CGet (priv_key S i), CReplace (priv_key S i) (JObj merged),
                            CGet (priv_key S i)]"
proof -
  let ?k = "priv_key S i"
  let ?merged = "assign_fields (assign_fields ent src) [(''_type'', JStr (name S))]"
  let ?w2 = "log_call (CReplace ?k (JObj ?merged))
               (snd (bucket_replace (connection S) ?k (JObj ?merged) (store w1))) w1"
  have m: "map_of ?merged = (map_of ent ++ map_of src)(''_type'' \<mapsto> JStr (name S))"
    by (simp add: assign_type_last map_of_assign_fields [OF d])
  have p: "patch S i data ps w = get S i ps ?w2"
    using g src by (simp add: patch_def object_assign_def Let_def split: prod.splits)
  have t1: "trace w1 = trace w @ [CGet ?k]"
    using get_trace [of S i ps w] g by simp
  have t: "trace (snd (patch S i data ps w)) = trace w @ [CGet ?k, CReplace ?k (JObj ?merged), CGet ?k]"
    by (simp add: p get_trace) (simp add: log_call_def t1)
  show ?thesis using m p t by blast
qed

theorem patch_merges_and_replaces_witness:
  "fst (patch (users no_pagination) (JStr ''a'') (Some [(''b'', JNum 2), (''foo'', JStr ''baz'')]) None
          (start store_a))
     = Resolved (JObj [(''uuid'', JStr ''a''), (''foo'', JStr ''baz''), (''b'', JNum 2),
                       (''_type'', JStr ''users'')])
   \<and> (\<exists>merged. map_of merged ''uuid'' = Some (JStr ''a'') \<and> map_of merged ''foo'' = Some (JStr ''baz'')
         \<and> map_of merged ''b'' = Some (JNum 2) \<and> map_of merged ''_type'' = Some (JStr ''users'')
         \<and> trace (snd (patch (users no_pagination) (JStr ''a'')
                      (Some [(''b'', JNum 2), (''foo'', JStr ''baz'')]) None (start store_a)))
             = [CGet ''users::a'', CReplace ''users::a'' (JObj merged), CGet ''users::a''])"
proof -
  let ?S = "users no_pagination" and ?w = "start store_a"
  let ?ent = "[(''uuid'', JStr ''a''), (''foo'', JStr ''bar'')]"
  let ?d = "[(''b'', JNum 2), (''foo'', JStr ''baz'')]"
  have g: "get ?S (JStr ''a'') None ?w = (Resolved (JObj ?ent), snd (get ?S (JStr ''a'') None ?w))"
    by (simp add: prod_eq_iff eval_defs)
  have s: "?d = (case Some ?d of None \<Rightarrow> [] | Some d \<Rightarrow> d)" by simp
  have d: "distinct (map fst ?d)" by simp
  from patch_merges_and_replaces [OF g s d]
  obtain merged where
    m: "map_of merged = (map_of ?ent ++ map_of ?d)(''_type'' \<mapsto> JStr (name ?S))"
    and t: "trace (snd (patch ?S (JStr ''a'') (Some ?d) None ?w))
              = trace ?w @ [CGet (priv_key ?S (JStr ''a'')),
                            CReplace (priv_key ?S (JStr ''a'')) (JObj merged),
                            CGet (priv_key ?S (JStr ''a''))]"
    by blast
  from m have "map_of merged ''uuid'' = Some (JStr ''a'')" "map_of merged ''foo'' = Some (JStr ''baz'')"
    "map_of merged ''b'' = Some (JNum 2)" "map_of merged ''_type'' = Some (JStr ''users'')"
    by (simp_all add: users_def)
  moreover from t have "trace (snd (patch ?S (JStr ''a'') (Some ?d) None ?w))
              = [CGet ''users::a'', CReplace ''users::a'' (JObj merged), CGet ''users::a'']"
    by (simp add: priv_key_def users_def start_def)
  moreover have "fst (patch ?S (JStr ''a'') (Some ?d) None ?w)
     = Resolved (JObj [(''uuid'', JStr ''a''), (''foo'', JStr ''baz''), (''b'', JNum 2),
                       (''_type'', JStr ''users'')])"
    by (simp add: eval_defs)
  ultimately show ?thesis by blast
qed

subsection \<open>The type of what is written\<close>

lemma typed_write_create:
  "list_all (typed_write (name S)) (new_calls w (snd (create S data ps w)))"
proof (cases data)
  case None
  then show ?thesis by (simp add: create_def new_calls_def)
next
  case (Some d)
  let ?d1 = "AList.update ''_type'' (JStr (name S)) d"
  have ty: "map_of ?d1 ''_type'' = Some (JStr (name S))" by (simp add: update_conv')
  show ?thesis
  proof (cases "map_of ?d1 (id_field S)")
    case None
    with ty have ne: "id_field S \<noteq> ''_type''" by auto
    show ?thesis using Some None ne
      by (simp add: create_def priv_id_def new_calls_def Let_def get_trace log_call_def
            get_prop_def update_conv' split: prod.splits)
  next
    case (Some v)
    show ?thesis using \<open>data = Some d\<close> Some
      by (simp add: create_def priv_id_def new_calls_def Let_def get_trace log_call_def
            get_prop_def update_conv' split: prod.splits)
  qed
qed

lemma typed_write_patch:
  "list_all (typed_write (name S)) (new_calls w (snd (patch S i data ps w)))"
proof -
  obtain o1 w1 where g: "get S i ps w = (o1, w1)" by (cases "get S i ps w")
  have t1: "trace w1 = trace w @ [CGet (priv_key S i)]"
    using get_trace [of S i ps w] g by simp
  show ?thesis
  proof (cases o1)
    case (Resolved obj)
    show ?thesis
    proof (cases "object_assign obj data")
      case (Inl e)
      then show ?thesis using g Resolved t1 by (simp add: patch_def new_calls_def)
    next
      case (Inr merged)
      show ?thesis
      proof (cases "object_assign merged (Some [(''_type'', JStr (name S))])")
        case (Inl e)
        then show ?thesis using g Resolved t1 \<open>object_assign obj data = Inr merged\<close>
          by (simp add: patch_def new_calls_def)
      next
        case (Inr payload)
        from get_prop_assign_type [OF Inr] have "get_prop payload ''_type'' = JStr (name S)" .
        then show ?thesis using g Resolved t1 Inr \<open>object_assign obj data = Inr merged\<close>
          by (simp add: patch_def new_calls_def Let_def get_trace log_call_def split: prod.splits)
      qed
    qed
  qed (use g t1 in \<open>simp_all add: patch_def new_calls_def\<close>)
qed

lemma update_world: "snd (update S i data ps w) = snd (patch S i data ps w)"
  by (simp add: update_def split: prod.splits outcome.splits)

text \<open>
  C7. Every document that \<^verbatim>\<open>create\<close>, \<^verbatim>\<open>patch\<close> and \<^verbatim>\<open>update\<close> hand to the client's
  \<^verbatim>\<open>insert\<close> or \<^verbatim>\<open>replace\<close> has \<^verbatim>\<open>_type\<close> equal to the collection name, whatever the
  payload of the caller holds, a \<^verbatim>\<open>_type\<close> of its own included.
\<close>

theorem writes_force_type:
  "list_all (typed_write (name S)) (new_calls w (snd (create S data ps w)))
   \<and> list_all (typed_write (name S)) (new_calls w (snd (patch S i data ps w)))
   \<and> list_all (typed_write (name S)) (new_calls w (snd (update S i data ps w)))"
  by (simp add: typed_write_create typed_write_patch update_world)

theorem writes_force_type_witness:
  "new_calls (start store_b) (snd (create (users no_pagination)
       (Some [(''_type'', JStr ''admin''), (''x'', JNum 1)]) None (start store_b)))
     = [CInsert ''users::id0''
          (JObj [(''_type'', JStr ''users''), (''x'', JNum 1), (''uuid'', JStr ''id0'')]),
        CGet ''users::id0'']
   \<and> list_all (typed_write ''users'') (new_calls (start store_b) (snd (create (users no_pagination)
       (Some [(''_type'', JStr ''admin''), (''x'', JNum 1)]) None (start store_b))))
   \<and> new_calls (start store_b) (snd (update (users no_pagination) (JStr ''c'')
       (Some [(''_type'', JStr ''admin''), (''x'', JNum 1)]) None (start store_b)))
     = [CGet ''users::c'',
        CReplace ''users::c''
          (JObj [(''foo'', JStr ''baz''), (''_type'', JStr ''users''), (''x'', JNum 1)]),
        CGet ''users::c'']
   \<and> list_all (typed_write ''users'') (new_calls (start store_b) (snd (update (users no_pagination)
       (JStr ''c'') (Some [(''_type'', JStr ''admin''), (''x'', JNum 1)]) None (start store_b))))"
proof -
  let ?S = "users no_pagination" and ?w = "start store_b"
  let ?d = "Some [(''_type'', JStr ''admin''), (''x'', JNum 1)]"
  have n: "name ?S = ''users''" by (simp add: users_def)
  from writes_force_type [of ?S ?w ?d None "JStr ''c''"]
  have "list_all (typed_write ''users'') (new_calls ?w (snd (create ?S ?d None ?w)))"
    and "list_all (typed_write ''users'') (new_calls ?w (snd (update ?S (JStr ''c'') ?d None ?w)))"
    unfolding n by blast+
  moreover have "new_calls ?w (snd (create ?S ?d None ?w))
     = [CInsert ''users::id0''
          (JObj [(''_type'', JStr ''users''), (''x'', JNum 1), (''uuid'', JStr ''id0'')]),
        CGet ''users::id0'']"
    by (simp add: eval_defs find_defs)
  moreover have "new_calls ?w (snd (update ?S (JStr ''c'') ?d None ?w))
     = [CGet ''users::c'',
        CReplace ''users::c''
          (JObj [(''foo'', JStr ''baz''), (''_type'', JStr ''users''), (''x'', JNum 1)]),
        CGet ''users::c'']"
    by (simp add: eval_defs find_defs)
  ultimately show ?thesis by blast
qed

subsection \<open>find\<close>

lemma field_update_same: "field (AList.update k v q) k = v"
  by (simp add: field_def update_conv')

lemma field_update_other: "k \<noteq> k' \<Longrightarrow> field (AList.update k v q) k' = field q k'"
  by (simp add: field_def update_conv')

lemma field_delete_other: "k \<noteq> k' \<Longrightarrow> field (AList.delete k q) k' = field q k'"
  by (simp add: field_def delete_conv')

lemma find_tail_not_rejected: "fst (find_tail S q pg w) \<noteq> Rejected e"
  by (simp add: find_tail_def Let_def split: prod.splits outcome.splits)

lemma R_clamp_error: "R_clamp lo hi v = Inl e \<Longrightarrow> e = JsError ''min must not be greater than max in clamp(min, max, value)''"
  by (auto simp: R_clamp_def split: if_splits)

text \<open>
  C6. \<^verbatim>\<open>find\<close> rejects with \<^verbatim>\<open>BadRequest\<close> in exactly two cases: there are no params, or
  the params have no query.
\<close>

theorem find_bad_request_iff:
  "(\<exists>msg. fst (find_svc S ps w) = Rejected (BadRequest msg))
   \<longleftrightarrow> (ps = None \<or> (\<exists>p. ps = Some p \<and> query p = None))"
proof (cases ps)
  case None
  then show ?thesis by (simp add: find_svc_def)
next
  case (Some p)
  show ?thesis
  proof (cases "query p")
    case None
    with Some show ?thesis by (simp add: find_svc_def Let_def)
  next
    case (Some q)
    have "fst (find_svc S ps w) \<noteq> Rejected (BadRequest msg)" for msg
      using \<open>ps = Some p\<close> Some
      by (auto simp: find_svc_def Let_def find_tail_not_rejected dest!: R_clamp_error
               split: sum.splits)
    with \<open>ps = Some p\<close> Some show ?thesis by auto
  qed
qed

theorem find_bad_request_iff_witness:
  "fst (find_svc (users no_pagination) None (start store_rows))
     = Rejected (BadRequest ''Null passed to find'')
   \<and> fst (find_svc (users no_pagination) (Some \<lparr> query = None, params_paginate = None \<rparr>)
            (start store_rows))
     = Rejected (BadRequest ''Null query object passed'')
   \<and> fst (find_svc (users no_pagination) (with_query [(''foo'', JStr ''bar'')]) (start store_rows))
     \<noteq> Rejected (BadRequest ''Null query object passed'')"
proof -
  let ?S = "users no_pagination" and ?w = "start store_rows"
  have a: "fst (find_svc ?S None ?w) = Rejected (BadRequest ''Null passed to find'')"
    by (simp add: find_svc_def)
  have b: "fst (find_svc ?S (Some \<lparr> query = None, params_paginate = None \<rparr>) ?w)
             = Rejected (BadRequest ''Null query object passed'')"
    by (simp add: find_svc_def)
  have "\<not> (with_query [(''foo'', JStr ''bar'')] = None
           \<or> (\<exists>p. with_query [(''foo'', JStr ''bar'')] = Some p \<and> query p = None))"
    by (auto simp: with_query_def)
  with find_bad_request_iff [of ?S "with_query [(''foo'', JStr ''bar'')]" ?w]
  have "fst (find_svc ?S (with_query [(''foo'', JStr ''bar'')]) ?w)
          \<noteq> Rejected (BadRequest ''Null query object passed'')"
    by blast
  with a b show ?thesis by simp
qed

lemma priv_find_resolved:
  assumes "priv_find S q pg cons w = (Resolved r, q', w')"
  shows "\<exists>stmt vals sel n err results qd s rows.
           qb_interpret S (bucket S) q = Inr (stmt, vals)
           \<and> (if truthy (field q ''$select'')
               then iterate (field q ''$select'') = Inr sel \<and> q' = AList.delete ''$select'' q
               else sel = [] \<and> q' = q)
           \<and> n = priv_buildN1QL S stmt (if cons = JUndefined then JNull else cons) True
           \<and> bucket_query (connection S) n vals (store w) = ((err, results, qd), s)
           \<and> w' = log_call (CQuery n vals) s w
           \<and> (if sel \<noteq> [] then priv_stripKeys sel results = Inr rows else rows = results)
           \<and> (if has_default pg
               then r = JObj [(''total'', get_prop (get_prop qd ''metrics'') ''resultCount''),
                              (''limit'', field q' ''$limit''),
                              (''skip'', if nullish (field q' ''$skip'') then JNum 0
                                         else field q' ''$skip''),
                              (''data'', rows)]
               else r = rows)"
  using assms
  by (auto simp: priv_find_def Let_def split: sum.splits prod.splits if_splits)

lemma find_tail_resolved:
  assumes "find_tail S q pg w = (Resolved r, q', w')"
  shows "\<exists>q''. q' = Some q'' \<and>
           priv_find S (if map_of q ''$consistency'' \<noteq> None then AList.delete ''$consistency'' q else q)
             pg (field q ''$consistency'') w = (Resolved r, q'', w')"
  using assms by (auto simp: find_tail_def Let_def split: prod.splits outcome.splits)


text \<open>The clamp reads a limit that is not a number as JavaScript's comparisons do.\<close>

lemma R_clamp_converts:
  "R_clamp 0 (Some 50) (JStr ''10000'') = Inr (JNum 50)"
  "R_clamp 0 (Some 50) (JStr ''30'') = Inr (JStr ''30'')"
  "R_clamp 0 (Some 50) (JStr ''1e3'') = Inr (JNum 50)"
  "R_clamp 0 (Some 50) (JStr ''-1'') = Inr (JNum 0)"
  "R_clamp 0 (Some 50) (JStr ''abc'') = Inr (JStr ''abc'')"
  "R_clamp 0 (Some 50) (JBool True) = Inr (JBool True)"
  "R_clamp 0 (Some 50) (JArr [JNum 100]) = Inr (JNum 50)"
  "R_clamp 0 None (JStr ''10000'') = Inr (JStr ''10000'')"
  by code_simp+




lemma strip_row_names:
  "strip_row (map JStr names) a = JObj (filter (\<lambda>x. fst x \<in> set names) (own_props a))"
  by (auto simp: strip_row_def case_prod_beta intro!: filter_cong)

lemma map_of_strip:
  "map_of (filter (\<lambda>x. fst x \<in> set names) fs) = map_of fs |` set names"
  using map_of_filter [of "\<lambda>k. k \<in> set names" fs] by simp

text \<open>
  C8, amended. With a \<^verbatim>\<open>$select\<close> that is a list of field names and is not empty: where
  \<^verbatim>\<open>find\<close> resolves, the rows it returns (the \<^verbatim>\<open>data\<close> of the envelope under pagination)
  are, one for one, the rows the client's \<^verbatim>\<open>query\<close> delivered, each restricted to the
  selected names: the selected fields a row has, with their values, and nothing else.
\<close>

theorem find_select_restricts_rows:
  assumes q: "query p = Some q"
    and sel: "field q ''$select'' = JArr (map JStr names)" "names \<noteq> []"
    and pg: "pg = (case params_paginate p of Some g \<Rightarrow> g | None \<Rightarrow> paginate S)"
    and res: "find_svc S (Some p) w = (Resolved r, q', w')"
  shows "\<exists>n vals err results qd s rows rows'.
           bucket_query (connection S) n vals (store w) = ((err, results, qd), s)
           \<and> trace w' = trace w @ [CQuery n vals]
           \<and> array_elems results = Some rows
           \<and> (if has_default pg then get_prop r ''data'' else r) = JArr rows'
           \<and> length rows' = length rows
           \<and> (\<forall>j < length rows. \<exists>fs. rows' ! j = JObj fs
                 \<and> map_of fs = map_of (own_props (rows ! j)) |` set names)"
proof -
  obtain q3 where ft: "find_tail S q3 pg w = (Resolved r, q', w')"
    and s3: "field q3 ''$select'' = JArr (map JStr names)"
    using res q pg [symmetric] sel
    by (auto simp: find_svc_def Let_def field_update_other split: if_splits sum.splits)
  let ?qc = "if map_of q3 ''$consistency'' \<noteq> None then AList.delete ''$consistency'' q3 else q3"
  from find_tail_resolved [OF ft] obtain q'' where
    pf: "priv_find S ?qc pg (field q3 ''$consistency'') w = (Resolved r, q'', w')"
    by blast
  have sc: "field ?qc ''$select'' = JArr (map JStr names)"
    using s3 by (simp add: field_delete_other)
  from priv_find_resolved [OF pf] obtain stmt vals sl n1 err results qd s rws where
    sq: "if truthy (field ?qc ''$select'')
         then iterate (field ?qc ''$select'') = Inr sl \<and> q'' = AList.delete ''$select'' ?qc
         else sl = [] \<and> q'' = ?qc"
    and bq: "bucket_query (connection S) n1 vals (store w) = ((err, results, qd), s)"
    and w': "w' = log_call (CQuery n1 vals) s w"
    and st: "if sl \<noteq> [] then priv_stripKeys sl results = Inr rws else rws = results"
    and r: "if has_default pg
            then r = JObj [(''total'', get_prop (get_prop qd ''metrics'') ''resultCount''),
                           (''limit'', field q'' ''$limit''),
                           (''skip'', if nullish (field q'' ''$skip'') then JNum 0
                                      else field q'' ''$skip''),
                           (''data'', rws)]
            else r = rws"
    by blast
  have sl: "sl = map JStr names" using sq sc by simp
  with sel st have sk: "priv_stripKeys (map JStr names) results = Inr rws" by simp
  then obtain rows where ae: "array_elems results = Some rows"
    and rws: "rws = JArr (map (strip_row (map JStr names)) rows)"
    by (auto simp: priv_stripKeys_def split: option.splits)
  let ?rows' = "map (strip_row (map JStr names)) rows"
  have dt: "(if has_default pg then get_prop r ''data'' else r) = JArr ?rows'"
    using r rws by (auto simp: get_prop_def)
  have each: "\<forall>j < length rows. \<exists>fs. ?rows' ! j = JObj fs
                 \<and> map_of fs = map_of (own_props (rows ! j)) |` set names"
    by (simp add: strip_row_names map_of_strip)
  have tr: "trace w' = trace w @ [CQuery n1 vals]" by (simp add: w' log_call_def)
  have ln: "length ?rows' = length rows" by simp
  from bq tr ae dt ln each show ?thesis by blast
qed

theorem find_select_restricts_rows_witness:
  "fst (find_svc (users no_pagination)
          (with_query [(''$select'', JArr (map JStr [''foo''])), (''foo'', JStr ''bar'')])
          (start store_rows))
     = Resolved (JArr [JObj [(''foo'', JStr ''bar'')], JObj [(''foo'', JStr ''bar'')]])
   \<and> (\<exists>rows'. fst (find_svc (users no_pagination)
          (with_query [(''$select'', JArr (map JStr [''foo''])), (''foo'', JStr ''bar'')])
          (start store_rows)) = Resolved (JArr rows') \<and> length rows' = 2)"
proof -
  let ?q = "[(''$select'', JArr (map JStr [''foo''])), (''foo'', JStr ''bar'')]"
  let ?p = "\<lparr> query = Some ?q, params_paginate = None \<rparr>"
  let ?S = "users no_pagination"
  let ?F = "find_svc ?S (Some ?p) (start store_rows)"
  let ?r = "JArr [JObj [(''foo'', JStr ''bar'')], JObj [(''foo'', JStr ''bar'')]]"
  have r: "fst ?F = Resolved ?r"
    by (simp add: eval_defs find_defs)
  then have res: "?F = (Resolved ?r, fst (snd ?F), snd (snd ?F))"
    by (simp add: prod_eq_iff)
  have h1: "query ?p = Some ?q" by simp
  have h2: "field ?q ''$select'' = JArr (map JStr [''foo''])" by (simp add: field_def)
  have h3: "[''foo''] \<noteq> []" by simp
  have h4: "no_pagination = (case params_paginate ?p of Some g \<Rightarrow> g | None \<Rightarrow> paginate ?S)"
    by (simp add: users_def)
  have bq: "bucket_query (connection ?S) n vals (store (start store_rows))
              = ((None, JArr [JObj [(''foo'', JStr ''bar''), (''bar'', JStr ''foo'')],
                              JObj [(''foo'', JStr ''bar''), (''bar'', JStr ''foo'')]],
                  JObj [(''metrics'', JObj [(''resultCount'', JNum 2)])]),
                 store_rows\<lparr>answers := []\<rparr>)" for n vals
    by (simp add: eval_defs find_defs)
  from find_select_restricts_rows [OF h1 h2 h3 h4 res]
  obtain n vals err results qd s rows rows' where
    "bucket_query (connection ?S) n vals (store (start store_rows)) = ((err, results, qd), s)"
    "array_elems results = Some rows"
    "(if has_default no_pagination then get_prop ?r ''data'' else ?r) = JArr rows'"
    "length rows' = length rows"
    by blast
  then have "\<exists>rows'. ?r = JArr rows' \<and> length rows' = 2"
    by (auto simp: bq has_default_def no_pagination_def)
  with r show ?thesis by (simp add: with_query_def)
qed

text \<open>
  With \<^verbatim>\<open>$select: []\<close> nothing is stripped: the rows come back with all their fields.
\<close>

theorem find_empty_select_counterexample:
  "fst (find_svc (users no_pagination)
          (with_query [(''$select'', JArr []), (''foo'', JStr ''bar'')]) (start store_rows))
     = Resolved (JArr [JObj [(''foo'', JStr ''bar''), (''bar'', JStr ''foo'')],
                       JObj [(''foo'', JStr ''bar''), (''bar'', JStr ''foo'')]])"
  by (simp add: eval_defs find_defs)

lemma update_same_iff: "AList.update k v al = al \<longleftrightarrow> map_of al k = Some v"
proof
  assume "AList.update k v al = al"
  then have "map_of al k = map_of (AList.update k v al) k" by simp
  then show "map_of al k = Some v" by (simp add: update_conv')
next
  assume "map_of al k = Some v"
  then show "AList.update k v al = al"
    by (induction al) (auto split: if_splits)
qed

lemma delete_same_iff: "AList.delete k al = al \<longleftrightarrow> map_of al k = None"
proof
  assume "AList.delete k al = al"
  then have "map_of al k = map_of (AList.delete k al) k" by simp
  then show "map_of al k = None" by (simp add: delete_conv')
next
  assume "map_of al k = None"
  then show "AList.delete k al = al"
    by (induction al) (auto split: if_splits)
qed

lemma field_Some: "field q k = v \<Longrightarrow> v \<noteq> JUndefined \<Longrightarrow> map_of q k = Some v"
  by (auto simp: field_def split: option.splits)

lemma R_clamp_not_nullish: "R_clamp lo hi (JNum d) = Inr v \<Longrightarrow> \<not> nullish v"
  by (auto simp: R_clamp_def split: if_splits option.splits)

lemma priv_find_query:
  "fst (snd (priv_find S q pg cons w))
     = (if (\<exists>c. qb_interpret S (bucket S) q = Inr c) \<and> truthy (field q ''$select'')
           \<and> (\<exists>sel. iterate (field q ''$select'') = Inr sel)
        then AList.delete ''$select'' q else q)"
proof (cases "qb_interpret S (bucket S) q")
  case (Inl e)
  then show ?thesis by (simp add: priv_find_def)
next
  case (Inr c)
  obtain stmt vals where c: "c = (stmt, vals)" by (cases c)
  show ?thesis
  proof (cases "truthy (field q ''$select'')")
    case False
    with Inr c show ?thesis
      by (simp add: priv_find_def Let_def split: prod.splits sum.splits)
  next
    case True
    show ?thesis
    proof (cases "iterate (field q ''$select'')")
      case (Inl e)
      with Inr c True show ?thesis by (simp add: priv_find_def)
    next
      case sel: (Inr sel)
      with Inr c True show ?thesis
        by (simp add: priv_find_def Let_def split: prod.splits sum.splits)
    qed
  qed
qed

lemma find_tail_query:
  "fst (snd (find_tail S q3 pg w))
     = Some (let qc = (if map_of q3 ''$consistency'' \<noteq> None then AList.delete ''$consistency'' q3
                       else q3)
             in if (\<exists>c. qb_interpret S (bucket S) qc = Inr c) \<and> truthy (field qc ''$select'')
                   \<and> (\<exists>sel. iterate (field qc ''$select'') = Inr sel)
                then AList.delete ''$select'' qc else qc)"
proof -
  let ?qc = "if map_of q3 ''$consistency'' \<noteq> None then AList.delete ''$consistency'' q3 else q3"
  obtain r q'' w' where pf: "priv_find S ?qc pg (field q3 ''$consistency'') w = (r, q'', w')"
    by (cases "priv_find S ?qc pg (field q3 ''$consistency'') w") auto
  have "fst (snd (find_tail S q3 pg w)) = Some q''"
    using pf by (cases r) (simp_all add: find_tail_def Let_def)
  moreover have "q'' = fst (snd (priv_find S ?qc pg (field q3 ''$consistency'') w))"
    using pf by simp
  ultimately show ?thesis by (simp only: priv_find_query Let_def)
qed

lemma find_svc_throws:
  assumes q: "query p = Some q"
    and pg: "pg = (case params_paginate p of Some g \<Rightarrow> g | None \<Rightarrow> paginate S)"
    and hd: "has_default pg" and mx: "pg_max pg = Some m" "m < 0"
  shows "\<exists>e. fst (find_svc S (Some p) w) = Rejected e
           \<and> fst (snd (find_svc S (Some p) w))
               = Some (if nullish (field q ''$limit'')
                       then AList.update ''$limit''
                              (case pg_default pg of Some d \<Rightarrow> JNum d | None \<Rightarrow> JUndefined)
                              (AList.update ''_type'' (JStr (name S)) q)
                       else AList.update ''_type'' (JStr (name S)) q)"
  using q pg [symmetric] hd mx
  by (simp add: find_svc_def Let_def R_clamp_def field_update_other)

lemma find_svc_clamped:
  assumes q: "query p = Some q"
    and pg: "pg = (case params_paginate p of Some g \<Rightarrow> g | None \<Rightarrow> paginate S)"
    and hd: "has_default pg"
    and lim: "lim = (if nullish (field q ''$limit'')
                     then (case pg_default pg of Some d \<Rightarrow> JNum d | None \<Rightarrow> JUndefined)
                     else field q ''$limit'')"
    and cl: "R_clamp 0 (pg_max pg) lim = Inr v"
  shows "\<exists>q3. map_of q3 = (map_of q)(''_type'' \<mapsto> JStr (name S), ''$limit'' \<mapsto> v)
           \<and> (q3 = q \<longleftrightarrow> map_of q ''_type'' = Some (JStr (name S))
                  \<and> \<not> nullish (field q ''$limit'') \<and> v = field q ''$limit'')
           \<and> find_svc S (Some p) w = find_tail S q3 pg w"
proof -
  let ?q1 = "AList.update ''_type'' (JStr (name S)) q"
  let ?dflt = "case pg_default pg of Some d \<Rightarrow> JNum d | None \<Rightarrow> JUndefined"
  let ?q2 = "if nullish (field q ''$limit'') then AList.update ''$limit'' ?dflt ?q1 else ?q1"
  let ?q3 = "AList.update ''$limit'' v ?q2"
  have f1: "field ?q1 ''$limit'' = field q ''$limit''" by (simp add: field_update_other)
  have f2: "field ?q2 ''$limit'' = lim" by (simp add: lim f1 field_update_same)
  have ft: "find_svc S (Some p) w = find_tail S ?q3 pg w"
  proof (cases "nullish (field q ''$limit'')")
    case True
    with f2 cl have "R_clamp 0 (pg_max pg) (field (AList.update ''$limit'' ?dflt ?q1) ''$limit'') = Inr v"
      by simp
    with q pg [symmetric] hd True f1 show ?thesis by (simp add: find_svc_def Let_def)
  next
    case False
    with f2 cl have "R_clamp 0 (pg_max pg) (field ?q1 ''$limit'') = Inr v" by simp
    with q pg [symmetric] hd False f1 show ?thesis by (simp add: find_svc_def Let_def)
  qed
  have m3: "map_of ?q3 = (map_of q)(''_type'' \<mapsto> JStr (name S), ''$limit'' \<mapsto> v)"
    by (auto simp: update_conv')
  have eq: "?q3 = q \<longleftrightarrow> map_of q ''_type'' = Some (JStr (name S))
                  \<and> \<not> nullish (field q ''$limit'') \<and> v = field q ''$limit''"
    (is "?L \<longleftrightarrow> ?R")
  proof
    assume e: ?L
    have "map_of ?q3 ''_type'' = Some (JStr (name S))" "map_of ?q3 ''$limit'' = Some v"
      by (simp_all add: m3)
    then have t: "map_of q ''_type'' = Some (JStr (name S))" and l: "map_of q ''$limit'' = Some v"
      unfolding e by simp_all
    from l have fv: "field q ''$limit'' = v" by (simp add: field_def)
    have "\<not> nullish (field q ''$limit'')"
    proof
      assume n: "nullish (field q ''$limit'')"
      from hd obtain d where d: "pg_default pg = Some d"
        by (auto simp: has_default_def split: option.splits)
      with n cl lim have "R_clamp 0 (pg_max pg) (JNum d) = Inr v" by simp
      from R_clamp_not_nullish [OF this] fv n show False by simp
    qed
    with t fv show ?R by simp
  next
    assume R: ?R
    then have u1: "?q1 = q" by (simp add: update_same_iff)
    from R have "field q ''$limit'' \<noteq> JUndefined" by auto
    then have "map_of q ''$limit'' = Some (field q ''$limit'')" by (rule field_Some [OF refl])
    with R have "AList.update ''$limit'' v q = q" by (simp add: update_same_iff)
    with R u1 show ?L by simp
  qed
  from m3 eq ft show ?thesis by blast
qed

lemma find_svc_plain:
  assumes q: "query p = Some q"
    and pg: "pg = (case params_paginate p of Some g \<Rightarrow> g | None \<Rightarrow> paginate S)"
    and hd: "\<not> has_default pg"
  shows "find_svc S (Some p) w = find_tail S (AList.update ''_type'' (JStr (name S)) q) pg w"
  using q pg [symmetric] hd by (simp add: find_svc_def Let_def)

lemma find_tail_facts:
  assumes sel: "map_of q3 ''$select'' = map_of q ''$select''"
  shows "\<exists>qc q''. fst (snd (find_tail S q3 pg w)) = Some q''
           \<and> map_of qc = (map_of q3)(''$consistency'' := None)
           \<and> (let moved = ((\<exists>c. qb_interpret S (bucket S) qc = Inr c) \<and> truthy (field q ''$select'')
                             \<and> (\<exists>sel. iterate (field q ''$select'') = Inr sel))
               in map_of q'' = (if moved then (map_of qc)(''$select'' := None) else map_of qc)
                  \<and> (q'' = q3 \<longleftrightarrow> map_of q3 ''$consistency'' = None \<and> \<not> moved))"
proof -
  define qc where
    "qc = (if map_of q3 ''$consistency'' \<noteq> None then AList.delete ''$consistency'' q3 else q3)"
  define moved where
    "moved \<longleftrightarrow> (\<exists>c. qb_interpret S (bucket S) qc = Inr c) \<and> truthy (field q ''$select'')
                 \<and> (\<exists>sel. iterate (field q ''$select'') = Inr sel)"
  define q'' where "q'' = (if moved then AList.delete ''$select'' qc else qc)"
  have mc: "map_of qc = (map_of q3)(''$consistency'' := None)"
    by (auto simp: qc_def delete_conv')
  have fs: "field qc ''$select'' = field q ''$select''"
    using sel by (simp add: field_def mc)
  have a: "fst (snd (find_tail S q3 pg w)) = Some q''"
    unfolding q''_def moved_def qc_def
    by (simp only: find_tail_query Let_def fs [unfolded qc_def])
  have m: "map_of q'' = (if moved then (map_of qc)(''$select'' := None) else map_of qc)"
    by (simp add: q''_def delete_conv')
  have qc3: "qc = q3 \<longleftrightarrow> map_of q3 ''$consistency'' = None"
    by (simp add: qc_def delete_same_iff)
  have e: "q'' = q3 \<longleftrightarrow> map_of q3 ''$consistency'' = None \<and> \<not> moved"
  proof (cases moved)
    case False
    then show ?thesis using qc3 by (simp add: q''_def)
  next
    case True
    then have "truthy (field q ''$select'')" by (simp add: moved_def)
    then have "map_of q ''$select'' \<noteq> None" by (auto simp: field_def split: option.splits)
    with sel have ne: "map_of q3 ''$select'' \<noteq> None" by simp
    have "map_of q'' ''$select'' = None" using True by (simp add: q''_def delete_conv')
    with ne have "map_of q'' ''$select'' \<noteq> map_of q3 ''$select''" by auto
    then have "q'' \<noteq> q3" by auto
    with True show ?thesis by simp
  qed
  from a mc m e show ?thesis unfolding Let_def moved_def by blast
qed

lemma differ_at: "map_of a k \<noteq> map_of b k \<Longrightarrow> a \<noteq> b"
  by auto

lemma R_clamp_returns:
  "\<not> (\<exists>m. hi = Some m \<and> m < lo) \<Longrightarrow> \<exists>v. R_clamp lo hi x = Inr v"
  by (cases hi) (simp_all add: R_clamp_def)

lemma clamp_unchanged:
  assumes hd: "has_default pg"
    and lim: "lim = (if nullish (field q ''$limit'')
                     then (case pg_default pg of Some d \<Rightarrow> JNum d | None \<Rightarrow> JUndefined)
                     else field q ''$limit'')"
    and cl: "R_clamp 0 (pg_max pg) lim = Inr v"
  shows "(\<not> nullish (field q ''$limit'') \<and> v = field q ''$limit'')
         \<longleftrightarrow> (\<not> nullish (field q ''$limit'')
              \<and> R_clamp 0 (pg_max pg) (field q ''$limit'') = Inr (field q ''$limit''))"
  using lim cl by auto

text \<open>
  C10, amended. \<^verbatim>\<open>find\<close> works on the caller's query object, and leaves it as follows,
  whether its promise resolves, rejects or stays pending. \<^verbatim>\<open>_type\<close> is the collection name
  and every field other than \<^verbatim>\<open>_type\<close>, \<^verbatim>\<open>$limit\<close>, \<^verbatim>\<open>$consistency\<close> and \<^verbatim>\<open>$select\<close> is as
  before; without pagination \<^verbatim>\<open>$limit\<close> is as before. Where \<^verbatim>\<open>R.clamp\<close> throws (pagination
  with a max below \<open>0\<close>) \<^verbatim>\<open>find\<close> rejects, \<^verbatim>\<open>$limit\<close> is the one passed or the default,
  and \<^verbatim>\<open>$consistency\<close> and \<^verbatim>\<open>$select\<close> are as before. Otherwise \<^verbatim>\<open>$limit\<close> under pagination is
  the clamped one, \<^verbatim>\<open>$consistency\<close> is gone, and \<^verbatim>\<open>$select\<close> is gone exactly when the query
  builder accepted the filter \<open>qc\<close> (the object as it is but for \<^verbatim>\<open>$select\<close>) and
  \<^verbatim>\<open>$select\<close> was truthy and iterable. In each case the object equals the one passed in
  exactly when none of this changed it.
\<close>

theorem find_mutates_query:
  assumes q: "query p = Some q"
    and pg: "pg = (case params_paginate p of Some g \<Rightarrow> g | None \<Rightarrow> paginate S)"
    and lim: "lim = (if nullish (field q ''$limit'')
                     then (case pg_default pg of Some d \<Rightarrow> JNum d | None \<Rightarrow> JUndefined)
                     else field q ''$limit'')"
    and thr: "throws \<longleftrightarrow> has_default pg \<and> (\<exists>m. pg_max pg = Some m \<and> m < 0)"
  shows "\<exists>qc q''. fst (snd (find_svc S (Some p) w)) = Some q''
     \<and> map_of q'' ''_type'' = Some (JStr (name S))
     \<and> (\<forall>k. k \<notin> {''_type'', ''$limit'', ''$consistency'', ''$select''} \<longrightarrow> map_of q'' k = map_of q k)
     \<and> (\<not> has_default pg \<longrightarrow> map_of q'' ''$limit'' = map_of q ''$limit'')
     \<and> (throws \<longrightarrow>
           (\<exists>e. fst (find_svc S (Some p) w) = Rejected e)
         \<and> map_of q'' ''$limit'' = Some lim
         \<and> map_of q'' ''$consistency'' = map_of q ''$consistency''
         \<and> map_of q'' ''$select'' = map_of q ''$select''
         \<and> (q'' = q \<longleftrightarrow> map_of q ''_type'' = Some (JStr (name S)) \<and> \<not> nullish (field q ''$limit'')))
     \<and> (\<not> throws \<longrightarrow>
           (has_default pg \<longrightarrow> (\<exists>v. R_clamp 0 (pg_max pg) lim = Inr v \<and> map_of q'' ''$limit'' = Some v))
         \<and> map_of q'' ''$consistency'' = None
         \<and> map_of qc = (map_of q'')(''$select'' := map_of q ''$select'')
         \<and> (let moved = ((\<exists>c. qb_interpret S (bucket S) qc = Inr c) \<and> truthy (field q ''$select'')
                           \<and> (\<exists>sel. iterate (field q ''$select'') = Inr sel))
             in map_of q'' ''$select'' = (if moved then None else map_of q ''$select'')
                \<and> (q'' = q \<longleftrightarrow>
                      map_of q ''_type'' = Some (JStr (name S)) \<and> map_of q ''$consistency'' = None
                      \<and> \<not> moved
                      \<and> (has_default pg \<longrightarrow> \<not> nullish (field q ''$limit'')
                            \<and> R_clamp 0 (pg_max pg) (field q ''$limit'') = Inr (field q ''$limit'')))))"
    (is "\<exists>qc q''. ?P qc q''")
proof (cases throws)
  case True
  with thr obtain m where hd: "has_default pg" and mx: "pg_max pg = Some m" "m < 0" by auto
  let ?q1 = "AList.update ''_type'' (JStr (name S)) q"
  let ?dflt = "case pg_default pg of Some d \<Rightarrow> JNum d | None \<Rightarrow> JUndefined"
  let ?q2 = "if nullish (field q ''$limit'') then AList.update ''$limit'' ?dflt ?q1 else ?q1"
  from find_svc_throws [OF q pg hd mx] obtain e where
    rj: "fst (find_svc S (Some p) w) = Rejected e"
    and q2: "fst (snd (find_svc S (Some p) w)) = Some ?q2"
    by blast
  from hd obtain d where d: "pg_default pg = Some d"
    by (auto simp: has_default_def split: option.splits)
  have l: "map_of ?q2 ''$limit'' = Some lim"
  proof (cases "nullish (field q ''$limit'')")
    case True
    then show ?thesis by (simp add: lim update_conv')
  next
    case False
    then have "field q ''$limit'' \<noteq> JUndefined" by auto
    then have "map_of q ''$limit'' = Some (field q ''$limit'')" by (rule field_Some [OF refl])
    with False show ?thesis by (simp add: lim update_conv')
  qed
  have ty: "map_of ?q2 ''_type'' = Some (JStr (name S))" by (simp add: update_conv')
  have ot: "\<forall>k. k \<notin> {''_type'', ''$limit'', ''$consistency'', ''$select''} \<longrightarrow> map_of ?q2 k = map_of q k"
    by (simp add: update_conv')
  have cs: "map_of ?q2 ''$consistency'' = map_of q ''$consistency''"
    and sl: "map_of ?q2 ''$select'' = map_of q ''$select''"
    by (simp_all add: update_conv')
  have eq: "?q2 = q \<longleftrightarrow> map_of q ''_type'' = Some (JStr (name S)) \<and> \<not> nullish (field q ''$limit'')"
  proof (cases "nullish (field q ''$limit'')")
    case True
    have "map_of ?q2 ''$limit'' = Some (JNum d)" using True d by (simp add: update_conv')
    moreover have "map_of q ''$limit'' \<noteq> Some (JNum d)"
      using True by (auto simp: field_def)
    ultimately have "map_of ?q2 ''$limit'' \<noteq> map_of q ''$limit''" by simp
    then have "?q2 \<noteq> q" by (rule differ_at)
    with True show ?thesis by simp
  next
    case False
    then show ?thesis by (simp add: update_same_iff)
  qed
  from True hd q2 rj l ty ot cs sl eq have "?P [] ?q2" by simp
  then show ?thesis by (intro exI)
next
  case False
  let ?q1 = "AList.update ''_type'' (JStr (name S)) q"
  have "\<exists>q3. find_svc S (Some p) w = find_tail S q3 pg w
          \<and> map_of q3 ''_type'' = Some (JStr (name S))
          \<and> (\<forall>k. k \<noteq> ''_type'' \<and> k \<noteq> ''$limit'' \<longrightarrow> map_of q3 k = map_of q k)
          \<and> (\<not> has_default pg \<longrightarrow> map_of q3 ''$limit'' = map_of q ''$limit'')
          \<and> (has_default pg \<longrightarrow> (\<exists>v. R_clamp 0 (pg_max pg) lim = Inr v \<and> map_of q3 ''$limit'' = Some v))
          \<and> (q3 = q \<longleftrightarrow> map_of q ''_type'' = Some (JStr (name S))
                \<and> (has_default pg \<longrightarrow> \<not> nullish (field q ''$limit'')
                      \<and> R_clamp 0 (pg_max pg) (field q ''$limit'') = Inr (field q ''$limit'')))"
  proof (cases "has_default pg")
    case hd: True
    with False thr have "\<not> (\<exists>m. pg_max pg = Some m \<and> m < 0)" by simp
    from R_clamp_returns [OF this] obtain v where cl: "R_clamp 0 (pg_max pg) lim = Inr v"
      by blast
    from find_svc_clamped [OF q pg hd lim cl] obtain q3 where
      m3: "map_of q3 = (map_of q)(''_type'' \<mapsto> JStr (name S), ''$limit'' \<mapsto> v)"
      and e3: "q3 = q \<longleftrightarrow> map_of q ''_type'' = Some (JStr (name S))
                  \<and> \<not> nullish (field q ''$limit'') \<and> v = field q ''$limit''"
      and ft: "find_svc S (Some p) w = find_tail S q3 pg w"
      by blast
    have a: "map_of q3 ''_type'' = Some (JStr (name S))" by (simp add: m3)
    have b: "\<forall>k. k \<noteq> ''_type'' \<and> k \<noteq> ''$limit'' \<longrightarrow> map_of q3 k = map_of q k" by (simp add: m3)
    have c: "map_of q3 ''$limit'' = Some v" by (simp add: m3)
    from e3 clamp_unchanged [OF hd lim cl]
    have e: "q3 = q \<longleftrightarrow> map_of q ''_type'' = Some (JStr (name S))
                \<and> (has_default pg \<longrightarrow> \<not> nullish (field q ''$limit'')
                      \<and> R_clamp 0 (pg_max pg) (field q ''$limit'') = Inr (field q ''$limit''))"
      using hd by blast
    from ft a b c cl hd e show ?thesis by blast
  next
    case nd: False
    have ft: "find_svc S (Some p) w = find_tail S ?q1 pg w"
      by (rule find_svc_plain [OF q pg nd])
    have a: "map_of ?q1 ''_type'' = Some (JStr (name S))" by (simp add: update_conv')
    have b: "\<forall>k. k \<noteq> ''_type'' \<and> k \<noteq> ''$limit'' \<longrightarrow> map_of ?q1 k = map_of q k"
      by (simp add: update_conv')
    have c: "map_of ?q1 ''$limit'' = map_of q ''$limit''" by (simp add: update_conv')
    have e: "?q1 = q \<longleftrightarrow> map_of q ''_type'' = Some (JStr (name S))"
      by (simp add: update_same_iff)
    from ft a b c nd e show ?thesis by blast
  qed
  then obtain q3 where ft: "find_svc S (Some p) w = find_tail S q3 pg w"
    and a3: "map_of q3 ''_type'' = Some (JStr (name S))"
    and b3: "\<forall>k. k \<noteq> ''_type'' \<and> k \<noteq> ''$limit'' \<longrightarrow> map_of q3 k = map_of q k"
    and n3: "\<not> has_default pg \<longrightarrow> map_of q3 ''$limit'' = map_of q ''$limit''"
    and c3: "has_default pg \<longrightarrow> (\<exists>v. R_clamp 0 (pg_max pg) lim = Inr v \<and> map_of q3 ''$limit'' = Some v)"
    and e3: "q3 = q \<longleftrightarrow> map_of q ''_type'' = Some (JStr (name S))
                \<and> (has_default pg \<longrightarrow> \<not> nullish (field q ''$limit'')
                      \<and> R_clamp 0 (pg_max pg) (field q ''$limit'') = Inr (field q ''$limit''))"
    by blast
  from b3 have s3: "map_of q3 ''$select'' = map_of q ''$select''"
    and cs3: "map_of q3 ''$consistency'' = map_of q ''$consistency''" by simp_all
  from find_tail_facts [OF s3, of S pg w] obtain qc q'' where
    fq: "fst (snd (find_tail S q3 pg w)) = Some q''"
    and mc: "map_of qc = (map_of q3)(''$consistency'' := None)"
    and rest: "let moved = ((\<exists>c. qb_interpret S (bucket S) qc = Inr c) \<and> truthy (field q ''$select'')
                             \<and> (\<exists>sel. iterate (field q ''$select'') = Inr sel))
               in map_of q'' = (if moved then (map_of qc)(''$select'' := None) else map_of qc)
                  \<and> (q'' = q3 \<longleftrightarrow> map_of q3 ''$consistency'' = None \<and> \<not> moved)"
    by blast
  define moved where
    "moved \<longleftrightarrow> (\<exists>c. qb_interpret S (bucket S) qc = Inr c) \<and> truthy (field q ''$select'')
                 \<and> (\<exists>sel. iterate (field q ''$select'') = Inr sel)"
  from rest have m'': "map_of q'' = (if moved then (map_of qc)(''$select'' := None) else map_of qc)"
    and e'': "q'' = q3 \<longleftrightarrow> map_of q3 ''$consistency'' = None \<and> \<not> moved"
    unfolding Let_def moved_def by blast+
  have r1: "fst (snd (find_svc S (Some p) w)) = Some q''" using ft fq by simp
  have r2: "map_of q'' ''_type'' = Some (JStr (name S))" by (simp add: m'' mc a3)
  have r3: "\<forall>k. k \<notin> {''_type'', ''$limit'', ''$consistency'', ''$select''} \<longrightarrow> map_of q'' k = map_of q k"
    using b3 by (simp add: m'' mc)
  have l'': "map_of q'' ''$limit'' = map_of q3 ''$limit''" by (simp add: m'' mc)
  have r4: "\<not> has_default pg \<longrightarrow> map_of q'' ''$limit'' = map_of q ''$limit''"
    using n3 l'' by simp
  have r5: "has_default pg \<longrightarrow> (\<exists>v. R_clamp 0 (pg_max pg) lim = Inr v \<and> map_of q'' ''$limit'' = Some v)"
    using c3 l'' by simp
  have r6: "map_of q'' ''$consistency'' = None" by (simp add: m'' mc)
  have r7: "map_of qc = (map_of q'')(''$select'' := map_of q ''$select'')"
  proof (rule ext)
    fix k
    show "map_of qc k = ((map_of q'')(''$select'' := map_of q ''$select'')) k"
      using s3 by (simp add: m'' mc)
  qed
  have r8: "map_of q'' ''$select'' = (if moved then None else map_of q ''$select'')"
    using s3 by (simp add: m'' mc)
  have r9: "q'' = q \<longleftrightarrow>
              map_of q ''_type'' = Some (JStr (name S)) \<and> map_of q ''$consistency'' = None \<and> \<not> moved
              \<and> (has_default pg \<longrightarrow> \<not> nullish (field q ''$limit'')
                    \<and> R_clamp 0 (pg_max pg) (field q ''$limit'') = Inr (field q ''$limit''))"
    (is "?L \<longleftrightarrow> ?R")
  proof
    assume R: ?R
    with e3 have "q3 = q" by blast
    with R e'' show ?L by simp
  next
    assume L: ?L
    have nm: "\<not> moved"
    proof
      assume mv: moved
      then have "truthy (field q ''$select'')" by (simp add: moved_def)
      then have "map_of q ''$select'' \<noteq> None" by (auto simp: field_def split: option.splits)
      moreover from mv r8 L have "map_of q ''$select'' = None" by simp
      ultimately show False by simp
    qed
    from r6 L have nc: "map_of q ''$consistency'' = None" by simp
    with cs3 have "map_of q3 ''$consistency'' = None" by simp
    with nm e'' have "q'' = q3" by simp
    with L have "q3 = q" by simp
    with e3 nm nc show ?R by blast
  qed
  have r89: "let moved = ((\<exists>c. qb_interpret S (bucket S) qc = Inr c) \<and> truthy (field q ''$select'')
                           \<and> (\<exists>sel. iterate (field q ''$select'') = Inr sel))
             in map_of q'' ''$select'' = (if moved then None else map_of q ''$select'')
                \<and> (q'' = q \<longleftrightarrow>
                      map_of q ''_type'' = Some (JStr (name S)) \<and> map_of q ''$consistency'' = None
                      \<and> \<not> moved
                      \<and> (has_default pg \<longrightarrow> \<not> nullish (field q ''$limit'')
                            \<and> R_clamp 0 (pg_max pg) (field q ''$limit'') = Inr (field q ''$limit'')))"
    unfolding Let_def moved_def [symmetric] using r8 r9 by (rule conjI)
  have "?P qc q''"
    using False r1 r2 r3 r4 r5 r6 r7 r89 by simp
  then show ?thesis by (intro exI)
qed

theorem find_mutates_query_witness:
  "fst (snd (find_svc (users ten_fifty)
          (with_query [(''foo'', JStr ''bar''), (''$limit'', JNum 10000), (''$consistency'', JNum 2),
                       (''$select'', JArr [JStr ''foo''])]) (start store_rows)))
     = Some [(''foo'', JStr ''bar''), (''$limit'', JNum 50), (''_type'', JStr ''users'')]
   \<and> fst (find_svc (users ten_fifty)
          (with_query [(''foo'', JStr ''bar''), (''$limit'', JNum 10000), (''$consistency'', JNum 2),
                       (''$select'', JArr [JStr ''foo''])]) (start store_a))
     = Pending
   \<and> fst (snd (find_svc (users ten_fifty)
          (with_query [(''foo'', JStr ''bar''), (''$limit'', JNum 10000), (''$consistency'', JNum 2),
                       (''$select'', JArr [JStr ''foo''])]) (start store_a)))
     = Some [(''foo'', JStr ''bar''), (''$limit'', JNum 50), (''_type'', JStr ''users'')]
   \<and> fst (snd (find_svc (users ten_fifty)
          (with_query [(''foo'', JStr ''bar''), (''$limit'', JStr ''10000'')]) (start store_rows)))
     = Some [(''foo'', JStr ''bar''), (''$limit'', JNum 50), (''_type'', JStr ''users'')]"
proof -
  let ?q = "[(''foo'', JStr ''bar''), (''$limit'', JNum 10000), (''$consistency'', JNum 2),
             (''$select'', JArr [JStr ''foo''])]"
  let ?p = "\<lparr> query = Some ?q, params_paginate = None \<rparr>"
  let ?S = "users ten_fifty"
  let ?F = "find_svc ?S (Some ?p) (start store_a)"
  have h1: "query ?p = Some ?q" by simp
  have h2: "ten_fifty = (case params_paginate ?p of Some g \<Rightarrow> g | None \<Rightarrow> paginate ?S)"
    by (simp add: users_def)
  have nt: "\<not> (has_default ten_fifty \<and> (\<exists>m. pg_max ten_fifty = Some m \<and> m < 0))"
    by (simp add: ten_fifty_def)
  from find_mutates_query [OF h1 h2 refl refl, of "start store_a"] nt
  obtain q'' where q'': "fst (snd ?F) = Some q''"
    and ty: "map_of q'' ''_type'' = Some (JStr (name ?S))"
    and cs: "map_of q'' ''$consistency'' = None"
    by blast
  have pend: "fst ?F = Pending"
    by (simp add: eval_defs find_defs)
  have qa: "fst (snd ?F)
              = Some [(''foo'', JStr ''bar''), (''$limit'', JNum 50), (''_type'', JStr ''users'')]"
    by (simp add: eval_defs find_defs)
  with q'' ty cs have "map_of [(''foo'', JStr ''bar''), (''$limit'', JNum 50), (''_type'', JStr ''users'')]
                         ''$consistency'' = None"
    by simp
  have qr: "fst (snd (find_svc ?S (Some ?p) (start store_rows)))
              = Some [(''foo'', JStr ''bar''), (''$limit'', JNum 50), (''_type'', JStr ''users'')]"
    by (simp add: eval_defs find_defs)
  have qs: "fst (snd (find_svc ?S (with_query [(''foo'', JStr ''bar''), (''$limit'', JStr ''10000'')])
                   (start store_rows)))
              = Some [(''foo'', JStr ''bar''), (''$limit'', JNum 50), (''_type'', JStr ''users'')]"
    by code_simp
  from pend qa qr qs show ?thesis by (simp add: with_query_def)
qed

text \<open>
  A query that already holds \<^verbatim>\<open>_type: 'users'\<close> and no directive comes back as it was; and
  with a max below \<open>0\<close> \<^verbatim>\<open>find\<close> rejects and leaves \<^verbatim>\<open>$consistency\<close> and \<^verbatim>\<open>$select\<close> in place
  and \<^verbatim>\<open>$limit\<close> at the default.
\<close>

theorem find_leaves_query_counterexample:
  "fst (snd (find_svc (users no_pagination)
          (with_query [(''foo'', JStr ''bar''), (''_type'', JStr ''users'')]) (start store_rows)))
     = Some [(''foo'', JStr ''bar''), (''_type'', JStr ''users'')]
   \<and> fst (find_svc (users no_pagination)
          (with_query [(''foo'', JStr ''bar''), (''_type'', JStr ''users'')]) (start store_rows))
     = Resolved (JArr [JObj [(''foo'', JStr ''bar''), (''bar'', JStr ''foo'')],
                       JObj [(''foo'', JStr ''bar''), (''bar'', JStr ''foo'')]])
   \<and> fst (find_svc (users \<lparr> pg_default = Some 10, pg_max = Some (- 1) \<rparr>)
          (with_query [(''foo'', JStr ''bar''), (''$consistency'', JNum 2),
                       (''$select'', JArr [JStr ''foo''])]) (start store_rows))
     = Rejected (JsError ''min must not be greater than max in clamp(min, max, value)'')
   \<and> fst (snd (find_svc (users \<lparr> pg_default = Some 10, pg_max = Some (- 1) \<rparr>)
          (with_query [(''foo'', JStr ''bar''), (''$consistency'', JNum 2),
                       (''$select'', JArr [JStr ''foo''])]) (start store_rows)))
     = Some [(''foo'', JStr ''bar''), (''$consistency'', JNum 2), (''$select'', JArr [JStr ''foo'']),
             (''_type'', JStr ''users''), (''$limit'', JNum 10)]"
  by (simp add: eval_defs find_defs)

end
